theory Spec2Isabelle
  imports Main "HOL-Library.Sublist"
begin

section \<open>Strings as the engine uses them\<close>

text \<open>
  A JavaScript string is a sequence of 16-bit code units. The model's strings are
  Isabelle strings, lists of 8-bit characters, read as the code units U+0000 to U+00FF:
  they are exactly the JavaScript strings with no code unit above U+00FF, which include
  every keyword, selector and message of the engine. On these strings \<open>includes\<close>,
  \<open>startsWith\<close>, \<open>toLowerCase\<close>, \<open>split\<close> and \<open>parseInt\<close> are modelled in full; a string with
  a code unit above U+00FF has no counterpart in the model.
\<close>

text \<open>\<open>s.includes(t)\<close>: \<open>t\<close> occurs in \<open>s\<close> as a contiguous substring.\<close>

fun str_includes :: "string \<Rightarrow> string \<Rightarrow> bool" where
  "str_includes [] t = (t = [])"
| "str_includes (c # s) t = (prefix t (c # s) \<or> str_includes s t)"

text \<open>\<open>s.startsWith(t)\<close>.\<close>

definition startsWith :: "string \<Rightarrow> string \<Rightarrow> bool" where
  "startsWith s t = prefix t s"

text \<open>
  The letters that \<open>toLowerCase\<close> changes below U+0100, and what it makes of them: A to Z,
  and U+00C0 to U+00DE without the multiplication sign U+00D7.
\<close>

definition upper_letters :: string where
  "upper_letters =
     ''ABCDEFGHIJKLMNOPQRSTUVWXYZ'' @
     [CHR 0xC0, CHR 0xC1, CHR 0xC2, CHR 0xC3, CHR 0xC4, CHR 0xC5, CHR 0xC6,
      CHR 0xC7, CHR 0xC8, CHR 0xC9, CHR 0xCA, CHR 0xCB, CHR 0xCC, CHR 0xCD,
      CHR 0xCE, CHR 0xCF, CHR 0xD0, CHR 0xD1, CHR 0xD2, CHR 0xD3, CHR 0xD4,
      CHR 0xD5, CHR 0xD6, CHR 0xD8, CHR 0xD9, CHR 0xDA, CHR 0xDB, CHR 0xDC,
      CHR 0xDD, CHR 0xDE]"

definition lower_letters :: string where
  "lower_letters =
     ''abcdefghijklmnopqrstuvwxyz'' @
     [CHR 0xE0, CHR 0xE1, CHR 0xE2, CHR 0xE3, CHR 0xE4, CHR 0xE5, CHR 0xE6,
      CHR 0xE7, CHR 0xE8, CHR 0xE9, CHR 0xEA, CHR 0xEB, CHR 0xEC, CHR 0xED,
      CHR 0xEE, CHR 0xEF, CHR 0xF0, CHR 0xF1, CHR 0xF2, CHR 0xF3, CHR 0xF4,
      CHR 0xF5, CHR 0xF6, CHR 0xF8, CHR 0xF9, CHR 0xFA, CHR 0xFB, CHR 0xFC,
      CHR 0xFD, CHR 0xFE]"

definition lower_char :: "char \<Rightarrow> char" where
  "lower_char c =
     (case map_of (zip upper_letters lower_letters) c of
        Some d \<Rightarrow> d
      | None \<Rightarrow> c)"

definition toLowerCase :: "string \<Rightarrow> string" where
  "toLowerCase s = map lower_char s"

text \<open>
  An optional string field (\<open>string | undefined\<close>) is a \<open>string option\<close>. JavaScript treats
  \<open>undefined\<close> and the empty string as false in a condition, and \<open>a || b\<close> is \<open>a\<close> when \<open>a\<close>
  is true in that sense and \<open>b\<close> otherwise.
\<close>

definition truthy :: "string option \<Rightarrow> bool" where
  "truthy v = (case v of None \<Rightarrow> False | Some s \<Rightarrow> s \<noteq> [])"

definition js_or :: "string option \<Rightarrow> string option \<Rightarrow> string option" where
  "js_or a b = (if truthy a then a else b)"

text \<open>\<open>a || "literal"\<close>, which is always a string.\<close>

definition or_default :: "string option \<Rightarrow> string \<Rightarrow> string" where
  "or_default a d = (case a of None \<Rightarrow> d | Some s \<Rightarrow> if s = [] then d else s)"

subsection \<open>Numbers and parseInt with radix 10\<close>

text \<open>
  The numbers that \<open>parseInt\<close> can return: \<open>NaN\<close>, an infinity, or a finite number that
  is an integer, held as its sign (\<open>True\<close> for negative, so that \<open>-0\<close> is not \<open>+0\<close>) and its
  magnitude. \<open>ms n\<close> is the number a literal such as \<open>1000\<close> denotes.
\<close>

datatype js_number = NaN | Infinite bool | Finite bool nat

abbreviation ms :: "nat \<Rightarrow> js_number" where
  "ms n \<equiv> Finite False n"

text \<open>
  A JavaScript number is a double. An integer below \<open>2 ^ 53\<close> is a double as it is; a
  larger one is rounded to 53 significant bits, to the nearest and to the even one on a
  tie, and what reaches \<open>2 ^ 1024\<close> is infinite (\<open>None\<close>).
\<close>

fun bit_length :: "nat \<Rightarrow> nat" where
  "bit_length n = (if n = 0 then 0 else Suc (bit_length (n div 2)))"

definition round_double :: "nat \<Rightarrow> nat option" where
  "round_double n =
     (if n < 2 ^ 53 then Some n
      else
        (let e = bit_length n - 53;
             q = n div 2 ^ e;
             r = n mod 2 ^ e;
             h = 2 ^ (e - 1);
             q' = (if h < r \<or> (r = h \<and> odd q) then q + 1 else q);
             v = q' * 2 ^ e
         in if 2 ^ 1024 \<le> v then None else Some v))"

definition to_number :: "bool \<Rightarrow> nat \<Rightarrow> js_number" where
  "to_number negative n =
     (case round_double n of None \<Rightarrow> Infinite negative | Some v \<Rightarrow> Finite negative v)"

text \<open>
  \<open>parseInt(s, 10)\<close> skips leading white space, reads an optional sign and then the longest
  run of decimal digits; what follows the digits is ignored. With no digit at that place
  the result is \<open>NaN\<close>; otherwise it is the number nearest to the integer read, with the
  sign. The white space below U+0100 is tab, line feed, vertical tab, form feed,
  carriage return, space and the no-break space U+00A0.
\<close>

definition is_space :: "char \<Rightarrow> bool" where
  "is_space c =
     (c \<in> set [CHR 0x09, CHR 0x0A, CHR 0x0B, CHR 0x0C, CHR 0x0D, CHR 0x20, CHR 0xA0])"

definition digit_val :: "char \<Rightarrow> nat option" where
  "digit_val c = map_of (zip ''0123456789'' [0, 1, 2, 3, 4, 5, 6, 7, 8, 9]) c"

fun read_digits :: "nat \<Rightarrow> string \<Rightarrow> nat" where
  "read_digits acc [] = acc"
| "read_digits acc (c # cs) =
     (case digit_val c of None \<Rightarrow> acc | Some d \<Rightarrow> read_digits (10 * acc + d) cs)"

text \<open>The integer that the digits at the start of \<open>s\<close> denote, if \<open>s\<close> starts with a digit.\<close>

definition read_number :: "string \<Rightarrow> nat option" where
  "read_number s =
     (case s of
        [] \<Rightarrow> None
      | c # cs \<Rightarrow> (case digit_val c of None \<Rightarrow> None | Some d \<Rightarrow> Some (read_digits 0 s)))"

definition signed_number :: "bool \<Rightarrow> string \<Rightarrow> js_number" where
  "signed_number negative s =
     (case read_number s of None \<Rightarrow> NaN | Some n \<Rightarrow> to_number negative n)"

definition parseInt :: "string \<Rightarrow> js_number" where
  "parseInt s =
     (case dropWhile is_space s of
        [] \<Rightarrow> NaN
      | c # cs \<Rightarrow>
          if c = CHR ''-'' then signed_number True cs
          else if c = CHR ''+'' then signed_number False cs
          else signed_number False (c # cs))"

section \<open>The browser as the story runner sees it\<close>

text \<open>
  A locator is built without talking to the browser: \<open>page.locator(s)\<close>,
  \<open>page.getByLabel(s, {exact: false})\<close>, \<open>page.getByPlaceholder(s, {exact: false})\<close>,
  \<open>page.getByRole(r, {name: s})\<close>, \<open>page.getByText(s, {exact: false})\<close> and \<open>l.first()\<close>.
\<close>

datatype locator =
    Css string
  | ByLabel string
  | ByPlaceholder string
  | ByRole string string
  | ByText string
  | First locator

text \<open>
  The calls that reach the browser, the page or the screenshot store. The second argument
  of \<open>PageFill\<close> is \<open>None\<close> when the code passes \<open>undefined\<close>.
\<close>

datatype call =
    Launch
  | NewContext
  | NewPage
  | ContextClose
  | Goto string
  | PageFill string "string option"
  | PageClick string
  | WaitForSelector string
  | WaitForLoadState
  | Click locator
  | Fill locator string
  | SelectOption locator string
  | Check locator
  | Uncheck locator
  | ScrollIntoViewIfNeeded locator
  | Hover locator
  | Focus locator
  | IsVisible locator
  | ScrollBy
  | KeyboardPress string
  | WaitForTimeout js_number
  | Screenshot
  | UploadScreenshot string string

type_synonym trace = "call list"

text \<open>
  The world outside the engine is a deterministic function of the calls made so far (the
  trace): whether a call resolves or rejects, what \<open>isVisible\<close> answers, the page's
  URL, the reference the screenshot store returns, the clock and the error messages on
  the page's console. Every theorem below holds for every such world.
\<close>

record env =
  outcome :: "trace \<Rightarrow> call \<Rightarrow> string option"
  visible :: "trace \<Rightarrow> locator \<Rightarrow> string + bool"
  page_url :: "trace \<Rightarrow> string"
  upload :: "trace \<Rightarrow> string \<Rightarrow> string \<Rightarrow> string option"
  now :: "trace \<Rightarrow> int"
  iso_time :: "trace \<Rightarrow> string"
  console :: "trace \<Rightarrow> string list"
  resolve_url :: "string \<Rightarrow> string \<Rightarrow> string + string"

text \<open>
  A computation that talks to the browser takes the trace and returns the extended trace
  with either the message of the exception it threw (\<open>Inl\<close>) or its value (\<open>Inr\<close>).
\<close>

type_synonym 'a io = "trace \<Rightarrow> (string + 'a) \<times> trace"

definition bind_io :: "'a io \<Rightarrow> ('a \<Rightarrow> 'b io) \<Rightarrow> 'b io" where
  "bind_io m f tr = (case m tr of (Inl e, tr') \<Rightarrow> (Inl e, tr') | (Inr x, tr') \<Rightarrow> f x tr')"

text \<open>An awaited call: it is recorded, and the world decides whether it rejects.\<close>

definition do_call :: "env \<Rightarrow> call \<Rightarrow> unit io" where
  "do_call e c tr =
     (case outcome e tr c of None \<Rightarrow> (Inr (), tr @ [c]) | Some m \<Rightarrow> (Inl m, tr @ [c]))"

text \<open>
  \<open>await page.waitForTimeout(t)\<close> is an awaited call like the others: it rejects when the
  page, the context or the browser has been closed.
\<close>

definition waitForTimeout :: "env \<Rightarrow> js_number \<Rightarrow> unit io" where
  "waitForTimeout e t = do_call e (WaitForTimeout t)"

section \<open>Stories, steps and results\<close>

record StoryStep =
  action :: string
  selector :: "string option"
  element :: "string option"
  step_value :: "string option"
  description :: "string option"

record Verification =
  vtype :: string
  target :: "string option"
  expected :: string

text \<open>
  \<open>verifications\<close> is \<open>None\<close> when \<open>story.outcome?.verifications\<close> is undefined (no outcome,
  or an outcome without the list); an empty list is present and true in a condition.
\<close>

record Story =
  story_id :: string
  steps :: "StoryStep list"
  verifications :: "Verification list option"
  required_role :: "string option"

record StepResult =
  sr_step :: nat
  sr_action :: string
  sr_passed :: bool
  sr_duration_ms :: int
  sr_error :: "string option"

section \<open>The element resolver\<close>

definition looks_like_selector :: "string \<Rightarrow> bool" where
  "looks_like_selector t =
     (startsWith t ''#'' \<or> startsWith t ''.'' \<or> startsWith t ''['' \<or> str_includes t ''='')"

text \<open>
  The candidate list in the order the loop visits it: \<open>unshift\<close> puts each keyword's
  selectors in front of everything added before.
\<close>

definition strategies :: "string \<Rightarrow> locator list" where
  \<open>strategies t =
     (let targetLower = toLowerCase t;
          s0 = [ByLabel t, ByPlaceholder t, ByRole ''textbox'' t, ByRole ''button'' t,
                ByRole ''link'' t, ByText t];
          s1 = (if str_includes targetLower ''email''
                then [Css ''input[type="email"]'', Css ''input[name="email"]'',
                      Css ''input[name="Email"]'', Css ''#email''] @ s0
                else s0);
          s2 = (if str_includes targetLower ''password''
                then [Css ''input[type="password"]'', Css ''input[name="password"]'',
                      Css ''#password''] @ s1
                else s1);
          s3 = (if str_includes targetLower ''username''
                then [Css ''input[name="username"]'', Css ''#username''] @ s2
                else s2)
      in if str_includes targetLower ''submit'' \<or> str_includes targetLower ''login''
            \<or> str_includes targetLower ''sign in''
         then [Css ''button[type="submit"]'', Css ''input[type="submit"]''] @ s3
         else s3)\<close>

text \<open>
  The loop over the candidates: each one costs an \<open>isVisible\<close> call on its first match;
  an error of that call counts as not visible. The first visible candidate is returned,
  and when none is, the target itself as a selector.
\<close>

fun try_strategies :: "env \<Rightarrow> locator list \<Rightarrow> string \<Rightarrow> trace \<Rightarrow> locator \<times> trace" where
  "try_strategies e [] t tr = (Css t, tr)"
| "try_strategies e (l # ls) t tr =
     (case visible e tr (First l) of
        Inr True \<Rightarrow> (First l, tr @ [IsVisible (First l)])
      | _ \<Rightarrow> try_strategies e ls t (tr @ [IsVisible (First l)]))"

definition findElement :: "env \<Rightarrow> string \<Rightarrow> trace \<Rightarrow> locator \<times> trace" where
  "findElement e t tr =
     (if looks_like_selector t then (Css t, tr) else try_strategies e (strategies t) t tr)"

section \<open>The step executor\<close>

text \<open>
  The pattern shared by the branches that need an element: with a target, resolve it and
  perform the action on the element; without one, do nothing.
\<close>

definition on_target :: "env \<Rightarrow> string option \<Rightarrow> (locator \<Rightarrow> call) \<Rightarrow> unit io" where
  "on_target e tgt mk tr =
     (case tgt of
        None \<Rightarrow> (Inr (), tr)
      | Some t \<Rightarrow>
          if t = [] then (Inr (), tr)
          else (case findElement e t tr of (loc, tr') \<Rightarrow> do_call e (mk loc) tr'))"

text \<open>The body of the \<open>try\<close> block up to the settle pause: the chain of keyword tests.\<close>

definition step_action :: "env \<Rightarrow> StoryStep \<Rightarrow> unit io" where
  "step_action e step tr =
     (let a = toLowerCase (action step);
          tgt = js_or (selector step) (element step)
      in if str_includes a ''navigate'' \<or> str_includes a ''go to'' then
           (case js_or (step_value step) (element step) of
              None \<Rightarrow> (Inr (), tr)
            | Some url \<Rightarrow> if url = [] then (Inr (), tr) else do_call e (Goto url) tr)
         else if str_includes a ''click'' \<or> str_includes a ''tap'' then on_target e tgt Click tr
         else if str_includes a ''type'' \<or> str_includes a ''enter'' \<or> str_includes a ''fill'' then
           on_target e tgt (\<lambda>l. Fill l (or_default (step_value step) [])) tr
         else if str_includes a ''select'' \<or> str_includes a ''choose'' then
           on_target e tgt (\<lambda>l. SelectOption l (or_default (step_value step) [])) tr
         else if str_includes a ''check'' then on_target e tgt Check tr
         else if str_includes a ''uncheck'' then on_target e tgt Uncheck tr
         else if str_includes a ''wait'' then
           waitForTimeout e (parseInt (or_default (step_value step) ''1000'')) tr
         else if str_includes a ''scroll'' then
           (if truthy tgt then on_target e tgt ScrollIntoViewIfNeeded tr
            else do_call e ScrollBy tr)
         else if str_includes a ''hover'' then on_target e tgt Hover tr
         else if str_includes a ''press'' then
           do_call e (KeyboardPress (or_default (step_value step) ''Enter'')) tr
         else if str_includes a ''focus'' then on_target e tgt Focus tr
         else if truthy tgt then on_target e tgt Click tr
         else (Inr (), tr))"

definition executeStep :: "env \<Rightarrow> StoryStep \<Rightarrow> nat \<Rightarrow> trace \<Rightarrow> StepResult \<times> trace" where
  "executeStep e step stepIndex tr =
     (let startTime = now e tr
      in case bind_io (step_action e step) (\<lambda>_. waitForTimeout e (ms 100)) tr of
           (Inr _, tr') \<Rightarrow>
             (\<lparr>sr_step = stepIndex, sr_action = action step, sr_passed = True,
               sr_duration_ms = now e tr' - startTime, sr_error = None\<rparr>, tr')
         | (Inl m, tr') \<Rightarrow>
             (\<lparr>sr_step = stepIndex, sr_action = action step, sr_passed = False,
               sr_duration_ms = now e tr' - startTime, sr_error = Some m\<rparr>, tr'))"

section \<open>The story runner\<close>

text \<open>
  A credential object is read only through its two fields. A field is \<open>None\<close> when the
  object has no such property, which is what the runner sees when it is handed a value
  that is not a credential pair.
\<close>

record UserCredentials =
  username :: "string option"
  password :: "string option"

datatype auth_type = AuthNone | AuthBasic | AuthForm | AuthOAuth

record AuthConfig =
  auth_type :: auth_type
  loginUrl :: "string option"
  usernameSelector :: "string option"
  passwordSelector :: "string option"
  submitSelector :: "string option"
  successIndicator :: "string option"

text \<open>\<open>retryCount\<close> is a non-negative integer.\<close>

record ExecutionOptions =
  retryCount :: nat
  screenshotOnFailure :: bool
  credentials :: "UserCredentials option"
  authConfig :: "AuthConfig option"

text \<open>\<open>heal_proposal\<close> is never set by the runner and is left out.\<close>

record ExecutionResult =
  passed :: bool
  duration_ms :: int
  step_results :: "StepResult list"
  error :: "string option"
  screenshot_url :: "string option"
  console_errors :: "string list"
  retries :: nat

record auth_result =
  success :: bool
  auth_error :: "string option"

definition default_username_selector :: string where
  \<open>default_username_selector =
     ''input[type="email"], input[name="email"], input[name="username"], #email, #username''\<close>

definition default_password_selector :: string where
  \<open>default_password_selector =
     ''input[type="password"], input[name="password"], #password''\<close>

definition default_submit_selector :: string where
  \<open>default_submit_selector =
     ''button[type="submit"], input[type="submit"], button:has-text("Login"), button:has-text("Sign in")''\<close>

text \<open>The \<open>try\<close> block of \<open>authenticateUser\<close>; \<open>new URL(..)\<close> may throw as well.\<close>

definition login_flow :: "env \<Rightarrow> string \<Rightarrow> UserCredentials \<Rightarrow> AuthConfig \<Rightarrow> unit io" where
  "login_flow e baseUrl creds cfg tr =
     (case resolve_url e (case loginUrl cfg of None \<Rightarrow> ''/'' | Some u \<Rightarrow> u) baseUrl of
        Inl m \<Rightarrow> (Inl m, tr)
      | Inr url \<Rightarrow>
          bind_io (do_call e (Goto url)) (\<lambda>_.
          bind_io (do_call e (PageFill (or_default (usernameSelector cfg) default_username_selector)
                                (username creds))) (\<lambda>_.
          bind_io (do_call e (PageFill (or_default (passwordSelector cfg) default_password_selector)
                                (password creds))) (\<lambda>_.
          bind_io (do_call e (PageClick (or_default (submitSelector cfg) default_submit_selector))) (\<lambda>_.
            if truthy (successIndicator cfg)
            then do_call e (WaitForSelector (or_default (successIndicator cfg) []))
            else do_call e WaitForLoadState)))) tr)"

definition authenticateUser ::
  "env \<Rightarrow> string \<Rightarrow> UserCredentials \<Rightarrow> AuthConfig \<Rightarrow> trace \<Rightarrow> auth_result \<times> trace" where
  "authenticateUser e baseUrl creds cfg tr =
     (case login_flow e baseUrl creds cfg tr of
        (Inr _, tr') \<Rightarrow> (\<lparr>success = True, auth_error = None\<rparr>, tr')
      | (Inl m, tr') \<Rightarrow>
          (\<lparr>success = False, auth_error = Some (''Authentication failed: '' @ m)\<rparr>, tr'))"

text \<open>\<open>new Date().toISOString().replace(/[:.]/g, "-")\<close>.\<close>

definition file_timestamp :: "string \<Rightarrow> string" where
  "file_timestamp s = map (\<lambda>c. if c = CHR '':'' \<or> c = CHR ''.'' then CHR ''-'' else c) s"

text \<open>
  \<open>page.screenshot()\<close> followed by \<open>uploadScreenshot(..) || undefined\<close>. Only the screenshot
  can throw; a failed upload is \<open>null\<close>.
\<close>

definition capture_screenshot :: "env \<Rightarrow> string \<Rightarrow> (string option) io" where
  "capture_screenshot e sid tr =
     (case outcome e tr Screenshot of
        Some m \<Rightarrow> (Inl m, tr @ [Screenshot])
      | None \<Rightarrow>
          (let tr1 = tr @ [Screenshot];
               ts = file_timestamp (iso_time e tr1);
               u = upload e tr1 sid ts
           in (Inr (if truthy u then u else None), tr1 @ [UploadScreenshot sid ts])))"

subsection \<open>The retry loop of one step\<close>

text \<open>
  The variables of the \<open>while\<close> loop. \<open>history\<close> is not a variable of the code: it lists the
  result of every call of \<open>executeStep\<close> the loop has made, in order, so that the number
  of attempts can be stated. \<open>retries_total\<close> is the story's \<open>retries\<close> counter.
\<close>

record attempt_state =
  attempts :: nat
  lastError :: "string option"
  retries_total :: nat
  stepResult :: "StepResult option"
  history :: "StepResult list"

text \<open>The variables as the loop finds them, with the story's \<open>retries\<close> at \<open>k\<close>.\<close>

definition first_attempt :: "nat \<Rightarrow> attempt_state" where
  "first_attempt k =
     \<lparr>attempts = 0, lastError = None, retries_total = k, stepResult = None, history = []\<rparr>"

text \<open>
  The loop returns the message of the exception that left it, if any, with the variables
  as they were: the pause between two attempts is awaited outside the \<open>try\<close> of
  \<open>executeStep\<close>, so its rejection leaves the loop.
\<close>

function retry_loop ::
  "env \<Rightarrow> StoryStep \<Rightarrow> nat \<Rightarrow> nat \<Rightarrow> attempt_state \<Rightarrow> trace
     \<Rightarrow> (string option \<times> attempt_state) \<times> trace" where
  "retry_loop e step i rc a tr =
     (if attempts a \<le> rc then
        (case executeStep e step i tr of
           (r, tr1) \<Rightarrow>
             if sr_passed r
             then ((None, a\<lparr>stepResult := Some r, history := history a @ [r]\<rparr>), tr1)
             else
               (let a' = a\<lparr>stepResult := Some r, history := history a @ [r],
                            lastError := sr_error r, attempts := attempts a + 1,
                            retries_total := retries_total a + 1\<rparr>
                in if attempts a' \<le> rc then
                     (case waitForTimeout e (ms 1000) tr1 of
                        (Inl m, tr2) \<Rightarrow> ((Some m, a'), tr2)
                      | (Inr u, tr2) \<Rightarrow> retry_loop e step i rc a' tr2)
                   else retry_loop e step i rc a' tr1))
      else ((None, a), tr))"
  by pat_completeness auto
termination
  by (relation "measure (\<lambda>(e, step, i, rc, a, tr). Suc rc - attempts a)") auto

subsection \<open>The loop over the steps\<close>

text \<open>
  The variables of \<open>executeStory\<close> that the \<open>try\<close> block changes and the \<open>catch\<close> block and
  the result read. \<open>rs_attempts\<close> and \<open>rs_interrupted\<close> are not variables of the code:
  \<open>rs_attempts\<close> holds, for each step whose retry loop ran to its end, the \<open>history\<close> of
  that loop, and \<open>rs_interrupted\<close> the \<open>history\<close> of the loop that an exception left.
\<close>

record run_state =
  rs_passed :: bool
  rs_error :: "string option"
  rs_screenshotUrl :: "string option"
  rs_stepResults :: "StepResult list"
  rs_retries :: nat
  rs_attempts :: "StepResult list list"
  rs_interrupted :: "StepResult list"

definition initial_run_state :: run_state where
  "initial_run_state =
     \<lparr>rs_passed = True, rs_error = None, rs_screenshotUrl = None, rs_stepResults = [],
      rs_retries = 0, rs_attempts = [], rs_interrupted = []\<rparr>"

text \<open>
  A block that may throw in the middle returns the message of the exception, if any, with
  the variables as they were at that moment.
\<close>

type_synonym block = "trace \<Rightarrow> (string option \<times> run_state) \<times> trace"

text \<open>
  The \<open>for\<close> loop over \<open>story.steps\<close>, from step \<open>i\<close> on. An exception of the retry loop
  leaves this loop too, before the step's result is pushed. The retry loop starts with
  \<open>attempts = 0\<close>, so it leaves a \<open>stepResult\<close> when it ends; the \<open>None\<close> case is the
  \<open>TypeError\<close> that reading \<open>stepResult.passed\<close> would raise otherwise.
\<close>

fun step_loop ::
  "env \<Rightarrow> string \<Rightarrow> ExecutionOptions \<Rightarrow> nat \<Rightarrow> StoryStep list \<Rightarrow> run_state \<Rightarrow> block" where
  "step_loop e sid opts i [] st tr = ((None, st), tr)"
| "step_loop e sid opts i (step # rest) st tr =
     (case retry_loop e step i (retryCount opts) (first_attempt (rs_retries st)) tr of
        ((Some m, a), tr1) \<Rightarrow>
          ((Some m, st\<lparr>rs_retries := retries_total a, rs_interrupted := history a\<rparr>), tr1)
      | ((None, a), tr1) \<Rightarrow>
          (case stepResult a of
             None \<Rightarrow>
               ((Some ''Cannot read properties of undefined'',
                 st\<lparr>rs_retries := retries_total a, rs_interrupted := history a\<rparr>),
                tr1)
           | Some r \<Rightarrow>
               (let st1 = st\<lparr>rs_stepResults := rs_stepResults st @ [r],
                              rs_retries := retries_total a,
                              rs_attempts := rs_attempts st @ [history a]\<rparr>
                in if \<not> sr_passed r then
                     (let st2 = st1\<lparr>rs_passed := False, rs_error := lastError a\<rparr>
                      in if screenshotOnFailure opts then
                           (case capture_screenshot e sid tr1 of
                              (Inl m, tr2) \<Rightarrow> ((Some m, st2), tr2)
                            | (Inr u, tr2) \<Rightarrow> ((None, st2\<lparr>rs_screenshotUrl := u\<rparr>), tr2))
                         else ((None, st2), tr1))
                   else step_loop e sid opts (i + 1) rest st1 tr1)))"

subsection \<open>The verification evaluator\<close>

definition url_mismatch :: "string \<Rightarrow> string \<Rightarrow> string" where
  \<open>url_mismatch exp currentUrl =
     ''Expected URL to contain "'' @ exp @ ''", got "'' @ currentUrl @ ''"''\<close>

definition element_not_visible :: "string \<Rightarrow> string" where
  \<open>element_not_visible sel = ''Element "'' @ sel @ ''" not visible''\<close>

definition content_not_found :: "string \<Rightarrow> string" where
  \<open>content_not_found exp = ''Expected content "'' @ exp @ ''" not found''\<close>

text \<open>
  One verification, entered with \<open>passed = true\<close>. The result is \<open>Some m\<close> when it sets
  \<open>passed = false\<close> and \<open>error = m\<close>, and \<open>None\<close> when it leaves both alone. \<open>page.url()\<close> reads
  the URL without a call to the browser.
\<close>

definition check_verification :: "env \<Rightarrow> Verification \<Rightarrow> trace \<Rightarrow> string option \<times> trace" where
  "check_verification e v tr =
     (if vtype v = ''url'' then
        (let currentUrl = page_url e tr
         in if \<not> str_includes currentUrl (expected v)
            then (Some (url_mismatch (expected v) currentUrl), tr)
            else (None, tr))
      else if vtype v = ''element'' then
        (let sel = or_default (target v) (expected v);
             loc = First (Css sel)
         in case visible e tr loc of
              Inl m \<Rightarrow> (Some m, tr @ [IsVisible loc])
            | Inr True \<Rightarrow> (None, tr @ [IsVisible loc])
            | Inr False \<Rightarrow> (Some (element_not_visible sel), tr @ [IsVisible loc]))
      else if vtype v = ''content'' then
        (let loc = First (Css (''text='' @ expected v))
         in case visible e tr loc of
              Inr True \<Rightarrow> (None, tr @ [IsVisible loc])
            | _ \<Rightarrow> (Some (content_not_found (expected v)), tr @ [IsVisible loc]))
      else (None, tr))"

text \<open>The loop over the verifications, with its \<open>if (!passed) break\<close>.\<close>

fun verify_loop :: "env \<Rightarrow> Verification list \<Rightarrow> trace \<Rightarrow> string option \<times> trace" where
  "verify_loop e [] tr = (None, tr)"
| "verify_loop e (v # vs) tr =
     (case check_verification e v tr of
        (Some m, tr') \<Rightarrow> (Some m, tr')
      | (None, tr') \<Rightarrow> verify_loop e vs tr')"

subsection \<open>executeStory\<close>

text \<open>
  The start of the \<open>try\<close> block: the login when credentials and a form configuration are
  given, the visit of the base URL otherwise. A failed login is thrown as an error.
\<close>

definition open_session :: "env \<Rightarrow> string \<Rightarrow> ExecutionOptions \<Rightarrow> unit io" where
  "open_session e baseUrl opts tr =
     (case (credentials opts, authConfig opts) of
        (Some creds, Some cfg) \<Rightarrow>
          if auth_type cfg = AuthForm then
            (case authenticateUser e baseUrl creds cfg tr of
               (authResult, tr') \<Rightarrow>
                 if \<not> success authResult
                 then (Inl (or_default (auth_error authResult) ''Authentication failed''), tr')
                 else (Inr (), tr'))
          else do_call e (Goto baseUrl) tr
      | _ \<Rightarrow> do_call e (Goto baseUrl) tr)"

text \<open>The verification part of the \<open>try\<close> block, entered after the step loop.\<close>

definition verify_outcome :: "env \<Rightarrow> Story \<Rightarrow> ExecutionOptions \<Rightarrow> run_state \<Rightarrow> block" where
  "verify_outcome e story opts st tr =
     (case verifications story of
        None \<Rightarrow> ((None, st), tr)
      | Some vs \<Rightarrow>
          if \<not> rs_passed st then ((None, st), tr)
          else
            (case verify_loop e vs tr of
               (None, tr1) \<Rightarrow> ((None, st), tr1)
             | (Some m, tr1) \<Rightarrow>
                 (let st1 = st\<lparr>rs_passed := False, rs_error := Some m\<rparr>
                  in if screenshotOnFailure opts \<and> \<not> truthy (rs_screenshotUrl st1) then
                       (case capture_screenshot e (story_id story) tr1 of
                          (Inl m', tr2) \<Rightarrow> ((Some m', st1), tr2)
                        | (Inr u, tr2) \<Rightarrow> ((None, st1\<lparr>rs_screenshotUrl := u\<rparr>), tr2))
                     else ((None, st1), tr1))))"

definition try_block :: "env \<Rightarrow> Story \<Rightarrow> string \<Rightarrow> ExecutionOptions \<Rightarrow> block" where
  "try_block e story baseUrl opts tr =
     (case open_session e baseUrl opts tr of
        (Inl m, tr1) \<Rightarrow> ((Some m, initial_run_state), tr1)
      | (Inr _, tr1) \<Rightarrow>
          (case step_loop e (story_id story) opts 0 (steps story) initial_run_state tr1 of
             ((Some m, st), tr2) \<Rightarrow> ((Some m, st), tr2)
           | ((None, st), tr2) \<Rightarrow> verify_outcome e story opts st tr2))"

text \<open>The \<open>catch\<close> block: the screenshot is tried again, and its own errors are ignored.\<close>

definition catch_block ::
  "env \<Rightarrow> Story \<Rightarrow> ExecutionOptions \<Rightarrow> string \<Rightarrow> run_state \<Rightarrow> trace \<Rightarrow> run_state \<times> trace" where
  "catch_block e story opts m st tr =
     (let st1 = st\<lparr>rs_passed := False, rs_error := Some m\<rparr>
      in if screenshotOnFailure opts then
           (case capture_screenshot e (story_id story) tr of
              (Inl _, tr1) \<Rightarrow> (st1, tr1)
            | (Inr u, tr1) \<Rightarrow> (st1\<lparr>rs_screenshotUrl := u\<rparr>, tr1))
         else (st1, tr))"

text \<open>The \<open>try\<close>, \<open>catch\<close> and the variables they leave, before \<open>finally\<close>.\<close>

definition run_story :: "env \<Rightarrow> Story \<Rightarrow> string \<Rightarrow> ExecutionOptions \<Rightarrow> trace \<Rightarrow> run_state \<times> trace" where
  "run_story e story baseUrl opts tr =
     (case try_block e story baseUrl opts tr of
        ((None, st), tr1) \<Rightarrow> (st, tr1)
      | ((Some m, st), tr1) \<Rightarrow> catch_block e story opts m st tr1)"

text \<open>
  \<open>getBrowser\<close> launches the browser when the module's variable is still \<open>null\<close>; \<open>launched\<close>
  says that it is set.
\<close>

definition getBrowser :: "env \<Rightarrow> bool \<Rightarrow> unit io" where
  "getBrowser e launched tr = (if launched then (Inr (), tr) else do_call e Launch tr)"

text \<open>
  The whole function: \<open>in_context\<close> is what runs once the page exists. An error of
  \<open>getBrowser\<close>, \<open>newContext\<close>, \<open>newPage\<close> or of \<open>context.close()\<close> in \<open>finally\<close> leaves the
  function as an exception (\<open>Inl\<close>); everything else ends in a result.
\<close>

definition in_context :: "env \<Rightarrow> Story \<Rightarrow> string \<Rightarrow> ExecutionOptions \<Rightarrow> ExecutionResult io" where
  "in_context e story baseUrl opts tr =
     (let startTime = now e tr
      in case run_story e story baseUrl opts tr of
           (st, tr1) \<Rightarrow>
             (case do_call e ContextClose tr1 of
                (Inl m, tr2) \<Rightarrow> (Inl m, tr2)
              | (Inr _, tr2) \<Rightarrow>
                  (Inr \<lparr>passed = rs_passed st, duration_ms = now e tr2 - startTime,
                        step_results = rs_stepResults st, error = rs_error st,
                        screenshot_url = rs_screenshotUrl st,
                        console_errors = console e tr2, retries = rs_retries st\<rparr>, tr2)))"

definition executeStory ::
  "env \<Rightarrow> bool \<Rightarrow> Story \<Rightarrow> string \<Rightarrow> ExecutionOptions \<Rightarrow> ExecutionResult io" where
  "executeStory e launched story baseUrl opts =
     bind_io (getBrowser e launched) (\<lambda>_.
     bind_io (do_call e NewContext) (\<lambda>_.
     bind_io (do_call e NewPage) (\<lambda>_.
       in_context e story baseUrl opts)))"

section \<open>The run orchestrator\<close>

text \<open>
  A row of the \<open>stories\<close> query: the story with its \<open>title\<close>, its \<open>name\<close> and the name of its
  journey.
\<close>

record story_row =
  row_story :: Story
  title :: string
  name :: string
  journey_name :: string

record environment =
  base_url :: string
  auth_config :: "AuthConfig option"

text \<open>
  \<open>credentialsMap\<close> is a plain object used as a dictionary. \<open>credentialsMap[role]\<close> finds
  the object's own property when a test user has that role, and otherwise what every
  object inherits from \<open>Object.prototype\<close> under that name: a function or object, which is
  true in a condition and has neither a \<open>username\<close> nor a \<open>password\<close>. The model takes the
  own properties as a map (roles other than \<open>__proto__\<close>, whose assignment would replace
  the prototype).
\<close>

definition object_prototype_names :: "string list" where
  "object_prototype_names =
     [''constructor'', ''__defineGetter__'', ''__defineSetter__'', ''hasOwnProperty'',
      ''__lookupGetter__'', ''__lookupSetter__'', ''isPrototypeOf'', ''propertyIsEnumerable'',
      ''toString'', ''valueOf'', ''__proto__'', ''toLocaleString'']"

definition lookup_credentials ::
  "(string \<rightharpoonup> UserCredentials) \<Rightarrow> string \<Rightarrow> UserCredentials option" where
  "lookup_credentials credentialsMap role =
     (case credentialsMap role of
        Some c \<Rightarrow> Some c
      | None \<Rightarrow>
          if role \<in> set object_prototype_names
          then Some \<lparr>username = None, password = None\<rparr>
          else None)"

text \<open>
  The row of \<open>test_runs\<close>, with the columns the orchestrator writes. \<open>status\<close> holds what
  the orchestrator wrote last; what an outside actor writes there is seen through the
  status the orchestrator reads back (\<open>status_read\<close> below).
\<close>

record test_run =
  status :: string
  stories_total :: nat
  stories_passed :: nat
  stories_failed :: nat
  stories_skipped :: nat
  current_story_id :: "string option"
  current_story_name :: "string option"

text \<open>
  A row inserted into \<open>test_results\<close>. The columns that only the result of \<open>executeStory\<close>
  fills are \<open>None\<close> in the rows of a skipped story and of a story whose run threw.
\<close>

record test_result =
  tr_story_id :: string
  tr_journey_name :: string
  tr_story_name :: string
  tr_passed :: bool
  tr_duration_ms :: int
  tr_error :: "string option"
  tr_retries :: nat
  tr_steps :: "StepResult list option"
  tr_screenshot_url :: "string option"
  tr_console_errors :: "string list option"

record ProgressUpdate =
  pu_total :: nat
  pu_completed :: nat
  pu_passed :: nat
  pu_failed :: nat
  pu_skipped :: nat
  pu_current :: "string option"

text \<open>
  What the loop over the stories changes: its three counters, the run's row, the inserted
  result rows, the \<open>last_result\<close> written to each story, the progress reports made, and
  (not a variable of the code) the indices of the stories \<open>executeStory\<close> was called for.
\<close>

record orchestration =
  passed_count :: nat
  failed_count :: nat
  skipped_count :: nat
  run :: test_run
  results :: "test_result list"
  last_results :: "(string \<times> string) list"
  progress :: "ProgressUpdate list"
  executed :: "nat list"

text \<open>
  The outside of the orchestrator: \<open>status_read i\<close> is the status the query before story
  \<open>i\<close> returns (\<open>None\<close> when it returns no row), and \<open>runner i\<close> is what the call of
  \<open>executeStory\<close> for story \<open>i\<close> does: it throws (\<open>Inl\<close>) or returns a result.
\<close>

record outside =
  status_read :: "nat \<Rightarrow> string option"
  runner :: "nat \<Rightarrow> Story \<Rightarrow> string \<Rightarrow> ExecutionOptions \<Rightarrow> string + ExecutionResult"

definition auth_not_configured :: "string \<Rightarrow> string" where
  \<open>auth_not_configured role =
     ''Story requires role "'' @ role
       @ ''" but environment auth is not configured for form login''\<close>

definition missing_test_user :: "string \<Rightarrow> string" where
  "missing_test_user role = ''Missing test user for required role: '' @ role"

definition skip_reason ::
  "environment \<Rightarrow> (string \<rightharpoonup> UserCredentials) \<Rightarrow> string option \<Rightarrow> string option" where
  "skip_reason env_row credentialsMap requiredRole =
     (case requiredRole of
        None \<Rightarrow> None
      | Some role \<Rightarrow>
          if role = [] then None
          else
            (case auth_config env_row of
               None \<Rightarrow> Some (auth_not_configured role)
             | Some cfg \<Rightarrow>
                 if auth_type cfg \<noteq> AuthForm then Some (auth_not_configured role)
                 else if lookup_credentials credentialsMap role \<noteq> None then None
                 else Some (missing_test_user role)))"

definition story_credentials ::
  "environment \<Rightarrow> (string \<rightharpoonup> UserCredentials) \<Rightarrow> string option \<Rightarrow> UserCredentials option" where
  "story_credentials env_row credentialsMap requiredRole =
     (case requiredRole of
        None \<Rightarrow> None
      | Some role \<Rightarrow>
          if role = [] then None
          else
            (case auth_config env_row of
               None \<Rightarrow> None
             | Some cfg \<Rightarrow>
                 if auth_type cfg \<noteq> AuthForm then None
                 else lookup_credentials credentialsMap role))"

definition persist_counters :: "orchestration \<Rightarrow> orchestration" where
  "persist_counters s =
     s\<lparr>run := (run s)\<lparr>stories_passed := passed_count s, stories_failed := failed_count s,
                      stories_skipped := skipped_count s\<rparr>\<rparr>"

text \<open>The body of the \<open>try\<close> block of one iteration when the story is skipped.\<close>

definition record_skip :: "story_row \<Rightarrow> string \<Rightarrow> orchestration \<Rightarrow> orchestration" where
  "record_skip row reason s =
     persist_counters
       (s\<lparr>results := results s @
             [\<lparr>tr_story_id = story_id (row_story row), tr_journey_name = journey_name row,
               tr_story_name = name row, tr_passed = False, tr_duration_ms = 0,
               tr_error = Some reason, tr_retries = 0, tr_steps = None,
               tr_screenshot_url = None, tr_console_errors = None\<rparr>],
          last_results := last_results s @ [(story_id (row_story row), ''skipped'')],
          skipped_count := skipped_count s + 1\<rparr>)"

text \<open>The rest of the \<open>try\<close> block after \<open>executeStory\<close> has returned \<open>result\<close>.\<close>

definition record_result :: "story_row \<Rightarrow> ExecutionResult \<Rightarrow> orchestration \<Rightarrow> orchestration" where
  "record_result row result s =
     persist_counters
       (s\<lparr>results := results s @
             [\<lparr>tr_story_id = story_id (row_story row), tr_journey_name = journey_name row,
               tr_story_name = name row, tr_passed = passed result,
               tr_duration_ms = duration_ms result, tr_error = error result,
               tr_retries = retries result, tr_steps = Some (step_results result),
               tr_screenshot_url = screenshot_url result,
               tr_console_errors = Some (console_errors result)\<rparr>],
          last_results := last_results s @
             [(story_id (row_story row), if passed result then ''passed'' else ''failed'')],
          passed_count := (if passed result then passed_count s + 1 else passed_count s),
          failed_count := (if passed result then failed_count s else failed_count s + 1)\<rparr>)"

text \<open>The \<open>catch\<close> block of one iteration, for an exception with message \<open>m\<close>.\<close>

definition record_exception :: "story_row \<Rightarrow> string \<Rightarrow> orchestration \<Rightarrow> orchestration" where
  "record_exception row m s =
     s\<lparr>failed_count := failed_count s + 1,
       results := results s @
          [\<lparr>tr_story_id = story_id (row_story row), tr_journey_name = journey_name row,
            tr_story_name = name row, tr_passed = False, tr_duration_ms = 0,
            tr_error = Some m, tr_retries = 0, tr_steps = None,
            tr_screenshot_url = None, tr_console_errors = None\<rparr>],
       last_results := last_results s @ [(story_id (row_story row), ''failed'')]\<rparr>"

text \<open>The options the orchestrator passes to \<open>executeStory\<close> for a story.\<close>

definition story_options ::
  "environment \<Rightarrow> (string \<rightharpoonup> UserCredentials) \<Rightarrow> story_row \<Rightarrow> ExecutionOptions" where
  "story_options env_row credentialsMap row =
     \<lparr>retryCount = 3, screenshotOnFailure = True,
      credentials = story_credentials env_row credentialsMap (required_role (row_story row)),
      authConfig = auth_config env_row\<rparr>"

text \<open>One iteration after the cancellation check: progress, current story, then the story.\<close>

definition run_one ::
  "outside \<Rightarrow> environment \<Rightarrow> (string \<rightharpoonup> UserCredentials) \<Rightarrow> nat \<Rightarrow> nat \<Rightarrow> story_row
     \<Rightarrow> orchestration \<Rightarrow> orchestration" where
  "run_one w env_row credentialsMap n i row s =
     (let s1 = s\<lparr>progress := progress s @
                    [\<lparr>pu_total = n, pu_completed = i, pu_passed = passed_count s,
                      pu_failed = failed_count s, pu_skipped = skipped_count s,
                      pu_current = Some (title row)\<rparr>],
                 run := (run s)\<lparr>current_story_id := Some (story_id (row_story row)),
                                  current_story_name := Some (title row)\<rparr>\<rparr>
      in case skip_reason env_row credentialsMap (required_role (row_story row)) of
           Some reason \<Rightarrow> record_skip row reason s1
         | None \<Rightarrow>
             (case runner w i (row_story row) (base_url env_row)
                     (story_options env_row credentialsMap row) of
                Inr result \<Rightarrow> record_result row result (s1\<lparr>executed := executed s1 @ [i]\<rparr>)
              | Inl m \<Rightarrow> record_exception row m (s1\<lparr>executed := executed s1 @ [i]\<rparr>)))"

definition clear_current :: "orchestration \<Rightarrow> orchestration" where
  "clear_current s =
     s\<lparr>run := (run s)\<lparr>current_story_id := None, current_story_name := None\<rparr>\<rparr>"

text \<open>
  The loop from story \<open>i\<close> on. The first component of the result says that the loop left
  the function through the cancellation branch.
\<close>

fun story_loop ::
  "outside \<Rightarrow> environment \<Rightarrow> (string \<rightharpoonup> UserCredentials) \<Rightarrow> nat \<Rightarrow> nat \<Rightarrow> story_row list
     \<Rightarrow> orchestration \<Rightarrow> bool \<times> orchestration" where
  "story_loop w env_row credentialsMap n i [] s = (False, s)"
| "story_loop w env_row credentialsMap n i (row # rows) s =
     (if status_read w i = Some ''cancelled'' then (True, clear_current s)
      else story_loop w env_row credentialsMap n (i + 1) rows
             (run_one w env_row credentialsMap n i row s))"

text \<open>The orchestrator's variables before the loop, with the run's row \<open>r\<close>.\<close>

definition before_loop :: "test_run \<Rightarrow> orchestration" where
  "before_loop r =
     \<lparr>passed_count = 0, failed_count = 0, skipped_count = 0, run = r,
      results = [], last_results = [], progress = [], executed = []\<rparr>"

text \<open>
  \<open>executeTestRun\<close> from the point where the environment, the credentials and the stories
  have been read: \<open>r\<close> is the run's row at that point.
\<close>

definition executeTestRun ::
  "outside \<Rightarrow> environment \<Rightarrow> (string \<rightharpoonup> UserCredentials) \<Rightarrow> story_row list \<Rightarrow> test_run
     \<Rightarrow> orchestration" where
  "executeTestRun w env_row credentialsMap stories r =
     (if stories = [] then
        before_loop (r\<lparr>status := ''completed'', stories_total := 0, stories_passed := 0,
                       stories_failed := 0, stories_skipped := 0\<rparr>)
      else
        (case story_loop w env_row credentialsMap (length stories) 0 stories
                (before_loop (r\<lparr>status := ''running'', stories_total := length stories\<rparr>)) of
           (True, s) \<Rightarrow> s
         | (False, s) \<Rightarrow>
             s\<lparr>run := (run s)\<lparr>status := ''completed'', stories_passed := passed_count s,
                              stories_failed := failed_count s,
                              stories_skipped := skipped_count s,
                              current_story_id := None, current_story_name := None\<rparr>,
               progress := progress s @
                 [\<lparr>pu_total = length stories, pu_completed = length stories,
                   pu_passed = passed_count s, pu_failed = failed_count s,
                   pu_skipped = skipped_count s, pu_current = None\<rparr>]\<rparr>))"

section \<open>Encryption of stored credentials\<close>

text \<open>
  \<open>encrypt\<close> and \<open>decrypt\<close> pass buffers between functions of Node's libraries and never
  look into one, so the type of buffers is left open (\<open>'buf\<close>), and so is the type of the
  plaintext strings (\<open>'text\<close>), which only the UTF-8 codec reads. The library functions
  are parameters: \<open>scrypt\<close> (key derivation), the AES-256-GCM cipher (\<open>gcm_encrypt\<close> returns
  the ciphertext and the authentication tag; \<open>gcm_decrypt\<close> throws when the key, the
  vector or the tag is not accepted), base64 and UTF-8.
\<close>

record ('text, 'buf) node_crypto =
  scrypt :: "string \<Rightarrow> 'buf \<Rightarrow> nat \<Rightarrow> 'buf"
  gcm_encrypt :: "'buf \<Rightarrow> 'buf \<Rightarrow> 'buf \<Rightarrow> 'buf \<times> 'buf"
  gcm_decrypt :: "'buf \<Rightarrow> 'buf \<Rightarrow> 'buf \<Rightarrow> 'buf \<Rightarrow> string + 'buf"
  to_base64 :: "'buf \<Rightarrow> string"
  from_base64 :: "string \<Rightarrow> 'buf"
  utf8_encode :: "'text \<Rightarrow> 'buf"
  utf8_decode :: "'buf \<Rightarrow> 'text"

datatype crypto_error =
    KeyNotSet
  | InvalidCiphertextFormat
  | CipherError string

text \<open>\<open>process.env.ENCRYPTION_KEY\<close> is \<open>None\<close> when the variable is not set.\<close>

definition getEncryptionKey :: "string option \<Rightarrow> crypto_error + string" where
  "getEncryptionKey env_key =
     (case env_key of None \<Rightarrow> Inl KeyNotSet | Some k \<Rightarrow> if k = [] then Inl KeyNotSet else Inr k)"

definition deriveKey ::
  "('text, 'buf) node_crypto \<Rightarrow> string option \<Rightarrow> 'buf \<Rightarrow> crypto_error + 'buf" where
  "deriveKey L env_key salt =
     (case getEncryptionKey env_key of Inl err \<Rightarrow> Inl err | Inr k \<Rightarrow> Inr (scrypt L k salt 32))"

text \<open>\<open>parts.join(sep)\<close> and \<open>s.split(sep)\<close> for a separator of one character.\<close>

fun join_with :: "string \<Rightarrow> string list \<Rightarrow> string" where
  "join_with sep [] = []"
| "join_with sep [x] = x"
| "join_with sep (x # y # ys) = x @ sep @ join_with sep (y # ys)"

fun split_on :: "char \<Rightarrow> string \<Rightarrow> string list" where
  "split_on sep [] = [[]]"
| "split_on sep (c # cs) =
     (if c = sep then [] # split_on sep cs
      else (case split_on sep cs of [] \<Rightarrow> [[c]] | p # ps \<Rightarrow> (c # p) # ps))"

text \<open>\<open>salt\<close> and \<open>iv\<close> are the random bytes the function draws.\<close>

definition encrypt ::
  "('text, 'buf) node_crypto \<Rightarrow> string option \<Rightarrow> 'buf \<Rightarrow> 'buf \<Rightarrow> 'text \<Rightarrow> crypto_error + string" where
  "encrypt L env_key salt iv plaintext =
     (case deriveKey L env_key salt of
        Inl err \<Rightarrow> Inl err
      | Inr key \<Rightarrow>
          (case gcm_encrypt L key iv (utf8_encode L plaintext) of
             (encrypted, tag) \<Rightarrow>
               Inr (join_with '':'' [to_base64 L salt, to_base64 L iv, to_base64 L tag,
                                to_base64 L encrypted])))"

definition decrypt ::
  "('text, 'buf) node_crypto \<Rightarrow> string option \<Rightarrow> string \<Rightarrow> crypto_error + 'text" where
  "decrypt L env_key ciphertext =
     (case split_on CHR '':'' ciphertext of
        [saltB64, ivB64, tagB64, encryptedB64] \<Rightarrow>
          (case deriveKey L env_key (from_base64 L saltB64) of
             Inl err \<Rightarrow> Inl err
           | Inr key \<Rightarrow>
               (case gcm_decrypt L key (from_base64 L ivB64) (from_base64 L tagB64)
                       (from_base64 L encryptedB64) of
                  Inl m \<Rightarrow> Inl (CipherError m)
                | Inr decrypted \<Rightarrow> Inr (utf8_decode L decrypted)))
      | _ \<Rightarrow> Inl InvalidCiphertextFormat)"

section \<open>Vocabulary of the properties\<close>

text \<open>The keywords the step executor tests for, in the order of its tests.\<close>

definition recognised_keywords :: "string list" where
  "recognised_keywords =
     [''navigate'', ''go to'', ''click'', ''tap'', ''type'', ''enter'', ''fill'', ''select'',
      ''choose'', ''check'', ''uncheck'', ''wait'', ''scroll'', ''hover'', ''press'', ''focus'']"

text \<open>The keywords tested before \<open>wait\<close> (without \<open>uncheck\<close>, which contains \<open>check\<close>).\<close>

definition keywords_before_wait :: "string list" where
  "keywords_before_wait =
     [''navigate'', ''go to'', ''click'', ''tap'', ''type'', ''enter'', ''fill'', ''select'',
      ''choose'', ''check'']"

text \<open>The number of failed results among the attempts of one step.\<close>

definition failed_attempts :: "StepResult list \<Rightarrow> nat" where
  "failed_attempts h = length (filter (\<lambda>r. \<not> sr_passed r) h)"

text \<open>
  The retry policy as a property of the variables of a story's run. For each step whose
  retry loop ran to its end, the result kept is the last of its attempts, there are
  between one and \<open>retryCount + 1\<close> attempts, and every attempt before the last one
  failed. The step whose loop an exception left, if there is one, has no result kept; its
  attempts, at most \<open>retryCount\<close>, all failed. The story's \<open>retries\<close> is the number of failed
  attempts over all steps.
\<close>

definition retry_invariant :: "nat \<Rightarrow> run_state \<Rightarrow> bool" where
  "retry_invariant rc st =
     (rs_stepResults st = map last (rs_attempts st)
      \<and> (\<forall>h \<in> set (rs_attempts st).
            h \<noteq> [] \<and> length h \<le> rc + 1 \<and> (\<forall>r \<in> set (butlast h). \<not> sr_passed r))
      \<and> length (rs_interrupted st) \<le> rc
      \<and> (\<forall>r \<in> set (rs_interrupted st). \<not> sr_passed r)
      \<and> rs_retries st
          = sum_list (map failed_attempts (rs_attempts st)) + length (rs_interrupted st))"

text \<open>
  A step whose third attempt passed: it has exactly three attempts, the third is the one
  kept, and it has two failed attempts.
\<close>

definition third_attempt_kept :: "StepResult list \<Rightarrow> bool" where
  "third_attempt_kept h =
     (3 \<le> length h \<and> sr_passed (h ! 2)
      \<longrightarrow> length h = 3 \<and> last h = h ! 2 \<and> failed_attempts h = 2)"

subsection \<open>Worlds and stories for the examples\<close>

text \<open>A browser in which every call resolves and nothing is visible.\<close>

definition quiet_browser :: env where
  "quiet_browser =
     \<lparr>outcome = (\<lambda>tr c. None), visible = (\<lambda>tr l. Inr False), page_url = (\<lambda>tr. ''about:blank''),
      upload = (\<lambda>tr sid ts. None), now = (\<lambda>tr. int (length tr)),
      iso_time = (\<lambda>tr. ''2025-01-01T00:00:00.000Z''), console = (\<lambda>tr. []),
      resolve_url = (\<lambda>rel base. Inr (base @ rel))\<rparr>"

text \<open>A browser in which every locator is visible.\<close>

definition showing_browser :: env where
  "showing_browser = quiet_browser\<lparr>visible := (\<lambda>tr l. Inr True)\<rparr>"

text \<open>A browser in which the first two clicks on \<open>#save\<close> time out.\<close>

definition flaky_browser :: env where
  "flaky_browser =
     quiet_browser\<lparr>outcome := (\<lambda>tr c.
        if c = Click (Css ''#save'') \<and> length (filter (\<lambda>d. d = Click (Css ''#save'')) tr) < 2
        then Some ''Timeout 30000ms exceeded'' else None)\<rparr>"

text \<open>
  A browser whose page is closed once the first click on \<open>#save\<close> has timed out: every
  later call on the page rejects, and the context can still be closed.
\<close>

definition closing_browser :: env where
  "closing_browser =
     quiet_browser\<lparr>outcome := (\<lambda>tr c.
        if c = Click (Css ''#save'') then Some ''Timeout 30000ms exceeded''
        else if c \<noteq> ContextClose \<and> Click (Css ''#save'') \<in> set tr
        then Some ''Target page, context or browser has been closed''
        else None)\<rparr>"

text \<open>A browser whose page has been closed: every call rejects.\<close>

definition closed_page :: env where
  "closed_page =
     quiet_browser\<lparr>outcome := (\<lambda>tr c. Some ''Target page, context or browser has been closed'')\<rparr>"

definition save_step :: StoryStep where
  "save_step = \<lparr>action = ''Click'', selector = Some ''#save'', element = None,
                step_value = None, description = None\<rparr>"

definition save_story :: Story where
  "save_story = \<lparr>story_id = ''s1'', steps = [save_step], verifications = Some [],
                 required_role = None\<rparr>"

definition two_retries :: ExecutionOptions where
  "two_retries =
     \<lparr>retryCount = 2, screenshotOnFailure = True, credentials = None, authConfig = None\<rparr>"

definition save_timeout :: StepResult where
  "save_timeout = \<lparr>sr_step = 0, sr_action = ''Click'', sr_passed = False, sr_duration_ms = 1,
                   sr_error = Some ''Timeout 30000ms exceeded''\<rparr>"

definition save_done :: StepResult where
  "save_done = \<lparr>sr_step = 0, sr_action = ''Click'', sr_passed = True, sr_duration_ms = 2,
                sr_error = None\<rparr>"

definition wait_soon :: StoryStep where
  "wait_soon = \<lparr>action = ''Wait'', selector = None, element = None,
                step_value = Some ''soon'', description = None\<rparr>"

definition click_and_wait :: StoryStep where
  "click_and_wait = \<lparr>action = ''Click and wait'', selector = None, element = None,
                     step_value = Some ''500'', description = None\<rparr>"

definition wait_for_spinner :: "string option \<Rightarrow> StoryStep" where
  "wait_for_spinner v = \<lparr>action = ''Wait for spinner'', selector = None, element = None,
                         step_value = v, description = None\<rparr>"

definition verify_total :: StoryStep where
  "verify_total = \<lparr>action = ''Verify the total'', selector = None, element = None,
                   step_value = Some ''42'', description = Some ''the total is shown''\<rparr>"

definition dashboard_check :: Verification where
  "dashboard_check = \<lparr>vtype = ''url'', target = None, expected = ''/dashboard''\<rparr>"

definition heading_check :: Verification where
  "heading_check = \<lparr>vtype = ''element'', target = Some ''h1'', expected = ''Welcome''\<rparr>"

definition browser_at :: "string \<Rightarrow> env" where
  "browser_at u = quiet_browser\<lparr>page_url := (\<lambda>tr. u)\<rparr>"

text \<open>The variables after a login that failed with message \<open>m\<close>, before any screenshot.\<close>

definition auth_failed :: "string \<Rightarrow> run_state" where
  "auth_failed m =
     initial_run_state\<lparr>rs_passed := False, rs_error := Some (''Authentication failed: '' @ m)\<rparr>"

text \<open>A form login that waits for \<open>#dashboard\<close>, and a browser where it never shows.\<close>

definition form_login :: AuthConfig where
  "form_login = \<lparr>auth_type = AuthForm, loginUrl = Some ''/login'', usernameSelector = None,
                 passwordSelector = None, submitSelector = Some ''#submit'',
                 successIndicator = Some ''#dashboard''\<rparr>"

definition admin_credentials :: UserCredentials where
  "admin_credentials = \<lparr>username = Some ''admin@x.test'', password = Some ''hunter2''\<rparr>"

definition locked_browser :: env where
  "locked_browser =
     quiet_browser\<lparr>outcome := (\<lambda>tr c.
        if c = WaitForSelector ''#dashboard'' then Some ''Timeout 10000ms exceeded'' else None)\<rparr>"

definition admin_options :: ExecutionOptions where
  "admin_options = \<lparr>retryCount = 3, screenshotOnFailure = True,
                    credentials = Some admin_credentials, authConfig = Some form_login\<rparr>"

subsection \<open>Vocabulary of the orchestrator's properties\<close>

text \<open>
  The iterations of the loop without its cancellation check: what has happened to the
  orchestrator's variables once the stories \<open>rows\<close>, numbered from \<open>i\<close>, have been handled.
\<close>

fun run_all ::
  "outside \<Rightarrow> environment \<Rightarrow> (string \<rightharpoonup> UserCredentials) \<Rightarrow> nat \<Rightarrow> nat \<Rightarrow> story_row list
     \<Rightarrow> orchestration \<Rightarrow> orchestration" where
  "run_all w env_row credentialsMap n i [] s = s"
| "run_all w env_row credentialsMap n i (row # rows) s =
     run_all w env_row credentialsMap n (i + 1) rows (run_one w env_row credentialsMap n i row s)"

text \<open>The number of stories whose recorded \<open>last_result\<close> is \<open>label\<close>.\<close>

definition outcome_count :: "orchestration \<Rightarrow> string \<Rightarrow> nat" where
  "outcome_count s label = length (filter (\<lambda>p. snd p = label) (last_results s))"

definition row_id :: "story_row \<Rightarrow> string" where
  "row_id row = story_id (row_story row)"

text \<open>
  The counters against the recorded outcomes: the loop's own counters are exact, and so
  are the persisted numbers of passed and skipped stories; the persisted number of failed
  stories is never ahead.
\<close>

definition counters_agree :: "orchestration \<Rightarrow> bool" where
  "counters_agree s =
     (passed_count s = outcome_count s ''passed''
      \<and> failed_count s = outcome_count s ''failed''
      \<and> skipped_count s = outcome_count s ''skipped''
      \<and> stories_passed (run s) = passed_count s
      \<and> stories_skipped (run s) = skipped_count s
      \<and> stories_failed (run s) \<le> failed_count s)"

text \<open>The call of \<open>executeStory\<close> for story \<open>i\<close> was made and threw.\<close>

definition threw ::
  "outside \<Rightarrow> environment \<Rightarrow> (string \<rightharpoonup> UserCredentials) \<Rightarrow> nat \<Rightarrow> story_row \<Rightarrow> bool" where
  "threw w env_row cm i row =
     (skip_reason env_row cm (required_role (row_story row)) = None
      \<and> (case runner w i (row_story row) (base_url env_row) (story_options env_row cm row) of
            Inl m \<Rightarrow> True
          | Inr result \<Rightarrow> False))"

subsection \<open>Runs for the examples\<close>

text \<open>An outside in which story \<open>i\<close> runs in the browser \<open>e\<close>, from an empty trace.\<close>

definition browser_runner ::
  "env \<Rightarrow> nat \<Rightarrow> Story \<Rightarrow> string \<Rightarrow> ExecutionOptions \<Rightarrow> string + ExecutionResult" where
  "browser_runner e i st url opts = fst (executeStory e (0 < i) st url opts [])"

definition plain_row :: "string \<Rightarrow> Verification list option \<Rightarrow> string option \<Rightarrow> story_row" where
  "plain_row sid vs role =
     \<lparr>row_story = \<lparr>story_id = sid, steps = [], verifications = vs, required_role = role\<rparr>,
      title = ''Story '' @ sid, name = sid, journey_name = ''checkout''\<rparr>"

definition five_stories :: "story_row list" where
  "five_stories =
     [plain_row ''s1'' None None, plain_row ''s2'' (Some [dashboard_check]) None,
      plain_row ''s3'' None None, plain_row ''s4'' None None, plain_row ''s5'' None None]"

definition open_environment :: environment where
  "open_environment = \<lparr>base_url = ''https://x.test'', auth_config = None\<rparr>"

definition form_environment :: environment where
  "form_environment = \<lparr>base_url = ''https://x.test'', auth_config = Some form_login\<rparr>"

definition new_run :: test_run where
  "new_run = \<lparr>status = ''pending'', stories_total = 0, stories_passed = 0, stories_failed = 0,
              stories_skipped = 0, current_story_id = None, current_story_name = None\<rparr>"

text \<open>The run is cancelled while the second story runs: the third check reads it.\<close>

definition cancelled_from :: "nat \<Rightarrow> nat \<Rightarrow> string option" where
  "cancelled_from k i = (if k \<le> i then Some ''cancelled'' else Some ''running'')"

definition cancel_after_two :: outside where
  "cancel_after_two =
     \<lparr>status_read = cancelled_from 2, runner = browser_runner quiet_browser\<rparr>"

text \<open>A browser that has been closed: no context can be opened.\<close>

definition closed_browser :: env where
  "closed_browser =
     quiet_browser\<lparr>outcome := (\<lambda>tr c.
        if c = NewContext then Some ''browser.newContext: Target closed'' else None)\<rparr>"

definition cancel_after_crash :: outside where
  "cancel_after_crash =
     \<lparr>status_read = cancelled_from 1, runner = browser_runner closed_browser\<rparr>"

text \<open>A browser that rejects \<open>fill\<close> without a value, as the page does.\<close>

definition strict_browser :: env where
  "strict_browser =
     quiet_browser\<lparr>outcome := (\<lambda>tr c.
        case c of PageFill sel None \<Rightarrow> Some ''page.fill: value: expected string, got undefined''
                | _ \<Rightarrow> None)\<rparr>"

definition never_cancelled :: outside where
  "never_cancelled = \<lparr>status_read = (\<lambda>i. Some ''running''), runner = browser_runner strict_browser\<rparr>"

text \<open>
  A library for the example: buffers are bit strings, base64 writes a bit as \<open>0\<close> or \<open>1\<close>,
  the cipher flips the bits and uses the key followed by the vector as its tag, and a
  text is the bit string itself.
\<close>

definition toy_crypto :: "(bool list, bool list) node_crypto" where
  "toy_crypto =
     \<lparr>scrypt = (\<lambda>k salt n. take n (salt @ replicate n False)),
      gcm_encrypt = (\<lambda>key iv p. (map Not p, key @ iv)),
      gcm_decrypt = (\<lambda>key iv tag ct.
         if tag = key @ iv then Inr (map Not ct)
         else Inl ''Unsupported state or unable to authenticate data''),
      to_base64 = map (\<lambda>x. if x then CHR ''1'' else CHR ''0''),
      from_base64 = map (\<lambda>c. c = CHR ''1''),
      utf8_encode = (\<lambda>t. t),
      utf8_decode = (\<lambda>b. b)\<rparr>"

section \<open>Properties of strings\<close>

lemma str_includes_iff: "str_includes s t \<longleftrightarrow> (\<exists>p q. s = p @ t @ q)"
proof (induction s)
  case Nil
  then show ?case by auto
next
  case (Cons c s)
  show ?case
  proof
    assume "str_includes (c # s) t"
    then consider "prefix t (c # s)" | "str_includes s t" by auto
    then show "\<exists>p q. c # s = p @ t @ q"
    proof cases
      case 1
      then obtain q where "c # s = t @ q" by (auto simp: prefix_def)
      then have "c # s = [] @ t @ q" by simp
      then show ?thesis by blast
    next
      case 2
      with Cons.IH obtain p q where "s = p @ t @ q" by blast
      then have "c # s = (c # p) @ t @ q" by simp
      then show ?thesis by blast
    qed
  next
    assume "\<exists>p q. c # s = p @ t @ q"
    then obtain p q where pq: "c # s = p @ t @ q" by blast
    show "str_includes (c # s) t"
    proof (cases p)
      case Nil
      with pq have "prefix t (c # s)" by (simp add: prefix_def)
      then show ?thesis by simp
    next
      case (Cons d p')
      with pq have "s = p' @ t @ q" by simp
      with Cons.IH show ?thesis by auto
    qed
  qed
qed

lemma str_includes_middle: "str_includes (p @ t @ q) t"
  using str_includes_iff by blast

lemma uncheck_includes_check:
  assumes "str_includes a ''uncheck''"
  shows "str_includes a ''check''"
proof -
  from assms obtain p q where "a = p @ ''uncheck'' @ q"
    using str_includes_iff by blast
  then have "a = (p @ ''un'') @ ''check'' @ q" by simp
  then show ?thesis using str_includes_middle by metis
qed

declare bit_length.simps [simp del]

lemmas parse_defs = parseInt_def signed_number_def to_number_def round_double_def
  read_number_def digit_val_def is_space_def

lemma parseInt_1000: "parseInt ''1000'' = ms 1000"
  by (simp add: parse_defs)

text \<open>Beyond \<open>2 ^ 53\<close> the number is the nearest double, not the integer written.\<close>

lemma bit_length_example: "bit_length 9007199254740993 = 54"
  by (simp add: bit_length.simps)

lemma parseInt_rounds: "parseInt ''9007199254740993'' = ms 9007199254740992"
  by (simp add: parse_defs bit_length_example)

text \<open>A no-break space before the digits is skipped; a sign is kept for zero.\<close>

lemma parseInt_skips_nbsp: "parseInt (CHR 0xA0 # '' 250ms'') = ms 250"
  by (simp add: parse_defs)

lemma parseInt_minus_zero: "parseInt ''-0'' = Finite True 0"
  by (simp add: parse_defs)

lemma parseInt_no_digits: "parseInt ''soon'' = NaN \<and> parseInt '''' = NaN \<and> parseInt ''- 5'' = NaN"
  by (simp add: parse_defs)

text \<open>Lowercasing reaches the accented capitals and leaves the multiplication sign.\<close>

lemma toLowerCase_latin1:
  "toLowerCase (''CLICK '' @ [CHR 0xC9, CHR 0xD7]) = ''click '' @ [CHR 0xE9, CHR 0xD7]"
  by (simp add: toLowerCase_def lower_char_def upper_letters_def lower_letters_def)

section \<open>Properties of the element resolver\<close>

text \<open>
  C8. A target that starts with \<open>#\<close>, \<open>.\<close> or \<open>[\<close>, or contains \<open>=\<close>, is returned by
  \<open>findElement\<close> as the locator of that literal selector, and the trace is unchanged: no
  candidate of the cascade is built and no visibility check is made.
\<close>

theorem findElement_literal_selector:
  "startsWith t ''#'' \<or> startsWith t ''.'' \<or> startsWith t ''['' \<or> str_includes t ''=''
   \<Longrightarrow> findElement e t tr = (Css t, tr)"
  by (simp add: findElement_def looks_like_selector_def)

text \<open>
  The target \<open>#email\<close>, in a browser where every candidate of the cascade would be found
  visible.
\<close>

theorem findElement_literal_selector_witness:
  "startsWith ''#email'' ''#''
   \<and> findElement showing_browser ''#email'' [] = (Css ''#email'', [])"
  using findElement_literal_selector [of "''#email''" showing_browser "[]"]
  by (simp add: startsWith_def)

section \<open>Properties of the step executor\<close>

text \<open>
  Where the action of a step is over without an exception, the step's result is decided
  by the settle pause.
\<close>

lemma executeStep_settle:
  assumes "step_action e step tr = (Inr (), tr1)"
  shows "executeStep e step i tr =
           (\<lparr>sr_step = i, sr_action = action step,
             sr_passed = (outcome e tr1 (WaitForTimeout (ms 100)) = None),
             sr_duration_ms = now e (tr1 @ [WaitForTimeout (ms 100)]) - now e tr,
             sr_error = outcome e tr1 (WaitForTimeout (ms 100))\<rparr>,
            tr1 @ [WaitForTimeout (ms 100)])"
  using assms
  by (simp add: executeStep_def bind_io_def waitForTimeout_def do_call_def Let_def
      split: option.splits)

lemma step_action_unrecognised:
  assumes "\<forall>k \<in> set recognised_keywords. \<not> str_includes (toLowerCase (action step)) k"
    and "\<not> truthy (selector step)" and "\<not> truthy (element step)"
  shows "step_action e step tr = (Inr (), tr)"
  using assms by (simp add: step_action_def recognised_keywords_def js_or_def Let_def)

text \<open>
  C10 as stated fails where the page has been closed: the settle pause is awaited inside
  the \<open>try\<close> block, it rejects, and the step that had nothing to do is reported as failed.
\<close>

theorem unrecognised_action_counterexample:
  "list_all (\<lambda>k. \<not> str_includes (toLowerCase (action verify_total)) k) recognised_keywords
   \<and> \<not> truthy (selector verify_total) \<and> \<not> truthy (element verify_total)
   \<and> executeStep closed_page verify_total 3 [] =
       (\<lparr>sr_step = 3, sr_action = ''Verify the total'', sr_passed = False, sr_duration_ms = 1,
         sr_error = Some ''Target page, context or browser has been closed''\<rparr>,
        [WaitForTimeout (ms 100)])"
  by (simp add: verify_total_def recognised_keywords_def toLowerCase_def lower_char_def
      upper_letters_def lower_letters_def truthy_def closed_page_def quiet_browser_def
      executeStep_def step_action_def js_or_def bind_io_def waitForTimeout_def do_call_def
      Let_def)

text \<open>
  C10, amended. A step whose lowercased action contains none of the recognised keywords
  and whose selector and element are both missing or empty makes no call to the browser
  but the settle pause of 100 ms, which is the only entry the trace gains. The result is a
  \<open>StepResult\<close> with \<open>passed = true\<close> and no error whenever that pause resolves; when it
  rejects, the step fails with the error of the pause.
\<close>

theorem unrecognised_action_settles:
  assumes "\<forall>k \<in> set recognised_keywords. \<not> str_includes (toLowerCase (action step)) k"
    and "\<not> truthy (selector step)" and "\<not> truthy (element step)"
  shows "executeStep e step i tr =
           (\<lparr>sr_step = i, sr_action = action step,
             sr_passed = (outcome e tr (WaitForTimeout (ms 100)) = None),
             sr_duration_ms = now e (tr @ [WaitForTimeout (ms 100)]) - now e tr,
             sr_error = outcome e tr (WaitForTimeout (ms 100))\<rparr>,
            tr @ [WaitForTimeout (ms 100)])"
  by (rule executeStep_settle) (rule step_action_unrecognised [OF assms])

text \<open>The step \<open>Verify the total\<close> in a browser whose calls all resolve.\<close>

theorem unrecognised_action_settles_witness:
  "list_all (\<lambda>k. \<not> str_includes (toLowerCase (action verify_total)) k) recognised_keywords
   \<and> \<not> truthy (selector verify_total) \<and> \<not> truthy (element verify_total)
   \<and> outcome quiet_browser [] (WaitForTimeout (ms 100)) = None
   \<and> executeStep quiet_browser verify_total 3 [] =
       (\<lparr>sr_step = 3, sr_action = ''Verify the total'', sr_passed = True, sr_duration_ms = 1,
         sr_error = None\<rparr>,
        [WaitForTimeout (ms 100)])"
  using unrecognised_action_settles [of verify_total quiet_browser 3 "[]"]
  by (simp add: verify_total_def recognised_keywords_def toLowerCase_def lower_char_def
      upper_letters_def lower_letters_def truthy_def quiet_browser_def)

text \<open>
  C7 as stated fails twice. A value that does not start with an integer makes the executor
  pause for \<open>NaN\<close>, not for 1000 ms; and a label that contains \<open>wait\<close> after an earlier
  keyword (here \<open>click\<close>) never reaches the pause.
\<close>

theorem wait_default_counterexample:
  "str_includes (toLowerCase (action wait_soon)) ''wait''
   \<and> snd (executeStep quiet_browser wait_soon 0 [])
       = [WaitForTimeout NaN, WaitForTimeout (ms 100)]
   \<and> str_includes (toLowerCase (action click_and_wait)) ''wait''
   \<and> snd (executeStep quiet_browser click_and_wait 0 []) = [WaitForTimeout (ms 100)]"
  by (simp add: wait_soon_def click_and_wait_def executeStep_def step_action_def bind_io_def
      waitForTimeout_def do_call_def quiet_browser_def toLowerCase_def lower_char_def
      upper_letters_def lower_letters_def parse_defs or_default_def js_or_def
      truthy_def on_target_def Let_def)

text \<open>
  C7, amended. For a step whose lowercased action contains \<open>wait\<close> and none of the
  keywords tested before it, the action of the step is the one call
  \<open>page.waitForTimeout(t)\<close>, where \<open>t\<close> is the number that \<open>parseInt\<close> reads from the step's
  value when it reads one, and 1000 when the value is missing or empty. When that pause
  and the settle pause resolve, the step passes, and the trace has gained the two pauses.
\<close>

theorem wait_step_pauses:
  assumes "str_includes (toLowerCase (action step)) ''wait''"
    and "\<forall>k \<in> set keywords_before_wait. \<not> str_includes (toLowerCase (action step)) k"
    and "parseInt (or_default (step_value step) ''1000'') = t" and "t \<noteq> NaN"
  shows "step_action e step tr = do_call e (WaitForTimeout t) tr
       \<and> (\<not> truthy (step_value step) \<longrightarrow> t = ms 1000)
       \<and> (outcome e tr (WaitForTimeout t) = None
            \<and> outcome e (tr @ [WaitForTimeout t]) (WaitForTimeout (ms 100)) = None
          \<longrightarrow> executeStep e step i tr =
                (\<lparr>sr_step = i, sr_action = action step, sr_passed = True,
                  sr_duration_ms =
                    now e (tr @ [WaitForTimeout t, WaitForTimeout (ms 100)]) - now e tr,
                  sr_error = None\<rparr>,
                 tr @ [WaitForTimeout t, WaitForTimeout (ms 100)]))"
proof -
  have "\<not> str_includes (toLowerCase (action step)) ''uncheck''"
    using assms(2) uncheck_includes_check by (auto simp: keywords_before_wait_def)
  then have act: "step_action e step tr = do_call e (WaitForTimeout t) tr"
    using assms(1-3)
    by (simp add: step_action_def keywords_before_wait_def waitForTimeout_def Let_def)
  have dflt: "t = ms 1000" if "\<not> truthy (step_value step)"
  proof -
    from that have "or_default (step_value step) ''1000'' = ''1000''"
      by (auto simp: truthy_def or_default_def split: option.splits)
    with assms(3) parseInt_1000 show ?thesis by simp
  qed
  have run: "executeStep e step i tr =
                (\<lparr>sr_step = i, sr_action = action step, sr_passed = True,
                  sr_duration_ms =
                    now e (tr @ [WaitForTimeout t, WaitForTimeout (ms 100)]) - now e tr,
                  sr_error = None\<rparr>,
                 tr @ [WaitForTimeout t, WaitForTimeout (ms 100)])"
    if "outcome e tr (WaitForTimeout t) = None"
      and "outcome e (tr @ [WaitForTimeout t]) (WaitForTimeout (ms 100)) = None"
  proof -
    from act that(1) have "step_action e step tr = (Inr (), tr @ [WaitForTimeout t])"
      by (simp add: do_call_def)
    from executeStep_settle [OF this, of i] that(2) show ?thesis by simp
  qed
  from act dflt run show ?thesis by blast
qed

text \<open>The step \<open>Wait for spinner\<close> with the value 2500 and with no value.\<close>

theorem wait_step_pauses_witness:
  "str_includes (toLowerCase (action (wait_for_spinner (Some ''2500'')))) ''wait''
   \<and> list_all (\<lambda>k. \<not> str_includes (toLowerCase (action (wait_for_spinner (Some ''2500'')))) k)
        keywords_before_wait
   \<and> parseInt (or_default (step_value (wait_for_spinner (Some ''2500''))) ''1000'') = ms 2500
   \<and> snd (executeStep quiet_browser (wait_for_spinner (Some ''2500'')) 0 [])
       = [WaitForTimeout (ms 2500), WaitForTimeout (ms 100)]
   \<and> parseInt (or_default (step_value (wait_for_spinner None)) ''1000'') = ms 1000
   \<and> snd (executeStep quiet_browser (wait_for_spinner None) 0 [])
       = [WaitForTimeout (ms 1000), WaitForTimeout (ms 100)]"
proof -
  have w: "str_includes (toLowerCase (action (wait_for_spinner v))) ''wait''" for v
    by (simp add: wait_for_spinner_def toLowerCase_def lower_char_def upper_letters_def
        lower_letters_def)
  have b: "\<forall>k \<in> set keywords_before_wait.
             \<not> str_includes (toLowerCase (action (wait_for_spinner v))) k" for v
    by (simp add: wait_for_spinner_def toLowerCase_def lower_char_def upper_letters_def
        lower_letters_def keywords_before_wait_def)
  have p1: "parseInt (or_default (step_value (wait_for_spinner (Some ''2500''))) ''1000'') = ms 2500"
    by (simp add: wait_for_spinner_def or_default_def parse_defs)
  have p2: "parseInt (or_default (step_value (wait_for_spinner None)) ''1000'') = ms 1000"
    by (simp add: wait_for_spinner_def or_default_def parseInt_1000)
  have n1: "ms 2500 \<noteq> NaN" and n2: "ms 1000 \<noteq> NaN" by simp_all
  have q: "outcome quiet_browser tr c = None" for tr c
    by (simp add: quiet_browser_def)
  from wait_step_pauses [OF w b p1 n1, of quiet_browser "[]" 0] q
  have r1: "snd (executeStep quiet_browser (wait_for_spinner (Some ''2500'')) 0 [])
       = [WaitForTimeout (ms 2500), WaitForTimeout (ms 100)]" by simp
  from wait_step_pauses [OF w b p2 n2, of quiet_browser "[]" 0] q
  have r2: "snd (executeStep quiet_browser (wait_for_spinner None) 0 [])
       = [WaitForTimeout (ms 1000), WaitForTimeout (ms 100)]" by simp
  from b [of "Some ''2500''"]
  have b': "list_all (\<lambda>k. \<not> str_includes (toLowerCase (action (wait_for_spinner (Some ''2500'')))) k)
        keywords_before_wait" by (simp add: list_all_iff)
  from w b' p1 r1 p2 r2 show ?thesis by simp
qed

section \<open>Properties of the story runner\<close>

declare retry_loop.simps [simp del]

text \<open>The definitions that evaluate a run in a concrete world.\<close>

lemmas eval_defs = run_story_def try_block_def open_session_def catch_block_def
     authenticateUser_def login_flow_def capture_screenshot_def file_timestamp_def
     executeStep_def step_action_def quiet_browser_def
     do_call_def bind_io_def waitForTimeout_def on_target_def findElement_def
     looks_like_selector_def startsWith_def js_or_def or_default_def truthy_def toLowerCase_def
     lower_char_def upper_letters_def lower_letters_def
     first_attempt_def initial_run_state_def verify_outcome_def Let_def
     default_username_selector_def default_password_selector_def default_submit_selector_def

text \<open>
  The result that \<open>executeStory\<close> returns copies the variables that \<open>run_story\<close> leaves:
  what is proved of them below holds of the \<open>ExecutionResult\<close>.
\<close>

lemma in_context_result:
  assumes "in_context e story baseUrl opts tr = (Inr res, tr')"
  shows "passed res = rs_passed (fst (run_story e story baseUrl opts tr))
       \<and> error res = rs_error (fst (run_story e story baseUrl opts tr))
       \<and> step_results res = rs_stepResults (fst (run_story e story baseUrl opts tr))
       \<and> retries res = rs_retries (fst (run_story e story baseUrl opts tr))
       \<and> screenshot_url res = rs_screenshotUrl (fst (run_story e story baseUrl opts tr))"
  using assms
  by (auto simp: in_context_def Let_def split: prod.splits sum.splits)

text \<open>
  C2 as stated fails in its last part. With \<open>screenshotOnFailure\<close> set, as the orchestrator
  always sets it, a login that times out is followed by a screenshot and its upload: the
  error is caught by the outer \<open>catch\<close> block, which captures a screenshot for every error.
\<close>

theorem failed_login_screenshot_counterexample:
  \<open>fst (login_flow locked_browser ''https://x.test'' admin_credentials form_login [])
     = Inl ''Timeout 10000ms exceeded''
   \<and> snd (run_story locked_browser save_story ''https://x.test'' admin_options [])
     = [Goto ''https://x.test/login'',
        PageFill default_username_selector (Some ''admin@x.test''),
        PageFill default_password_selector (Some ''hunter2''),
        PageClick ''#submit'', WaitForSelector ''#dashboard'', Screenshot,
        UploadScreenshot ''s1'' ''2025-01-01T00-00-00-000Z'']
   \<and> rs_stepResults (fst (run_story locked_browser save_story ''https://x.test'' admin_options [])) = []\<close>
  by (simp add: eval_defs locked_browser_def admin_options_def admin_credentials_def form_login_def save_story_def)

lemma open_session_failed_login:
  assumes "credentials opts = Some creds" and "authConfig opts = Some cfg"
    and "auth_type cfg = AuthForm"
    and "login_flow e baseUrl creds cfg tr = (Inl m, tr1)"
  shows "open_session e baseUrl opts tr = (Inl (''Authentication failed: '' @ m), tr1)"
  using assms by (simp add: open_session_def authenticateUser_def or_default_def)

text \<open>
  C2, amended. When credentials and a form configuration are supplied and the login flow
  fails with message \<open>m\<close>, the story ends with \<open>passed = false\<close>, the error
  \<open>Authentication failed: m\<close>, no step result, no attempt of any step and no retry. The
  only calls after the login are those of one screenshot capture, made exactly when
  \<open>screenshotOnFailure\<close> is set; an error of that capture is ignored.
\<close>

theorem failed_login_fails_story:
  assumes "credentials opts = Some creds" and "authConfig opts = Some cfg"
    and "auth_type cfg = AuthForm"
    and "login_flow e baseUrl creds cfg tr = (Inl m, tr1)"
  shows "run_story e story baseUrl opts tr =
           (if screenshotOnFailure opts then
              (case capture_screenshot e (story_id story) tr1 of
                 (Inl m', tr2) \<Rightarrow> (auth_failed m, tr2)
               | (Inr u, tr2) \<Rightarrow> ((auth_failed m)\<lparr>rs_screenshotUrl := u\<rparr>, tr2))
            else (auth_failed m, tr1))"
  using open_session_failed_login [OF assms]
  by (simp add: run_story_def try_block_def catch_block_def auth_failed_def Let_def
      split: prod.splits sum.splits)

theorem failed_login_fails_story_witness:
  \<open>credentials admin_options = Some admin_credentials
   \<and> authConfig admin_options = Some form_login
   \<and> auth_type form_login = AuthForm
   \<and> login_flow locked_browser ''https://x.test'' admin_credentials form_login [] =
       (Inl ''Timeout 10000ms exceeded'',
        [Goto ''https://x.test/login'',
         PageFill default_username_selector (Some ''admin@x.test''),
         PageFill default_password_selector (Some ''hunter2''),
         PageClick ''#submit'', WaitForSelector ''#dashboard''])
   \<and> run_story locked_browser save_story ''https://x.test'' admin_options [] =
       (auth_failed ''Timeout 10000ms exceeded'',
        [Goto ''https://x.test/login'',
         PageFill default_username_selector (Some ''admin@x.test''),
         PageFill default_password_selector (Some ''hunter2''),
         PageClick ''#submit'', WaitForSelector ''#dashboard'', Screenshot,
         UploadScreenshot ''s1'' ''2025-01-01T00-00-00-000Z''])\<close>
proof -
  have c: "credentials admin_options = Some admin_credentials"
    and a: "authConfig admin_options = Some form_login"
    by (simp_all add: admin_options_def)
  have f: "auth_type form_login = AuthForm" by (simp add: form_login_def)
  have l: "login_flow locked_browser ''https://x.test'' admin_credentials form_login [] =
       (Inl ''Timeout 10000ms exceeded'',
        [Goto ''https://x.test/login'',
         PageFill default_username_selector (Some ''admin@x.test''),
         PageFill default_password_selector (Some ''hunter2''),
         PageClick ''#submit'', WaitForSelector ''#dashboard''])"
    by (simp add: login_flow_def locked_browser_def quiet_browser_def admin_credentials_def
        form_login_def do_call_def bind_io_def or_default_def truthy_def)
  from failed_login_fails_story [OF c a f l, of save_story]
  have "run_story locked_browser save_story ''https://x.test'' admin_options [] =
       (auth_failed ''Timeout 10000ms exceeded'',
        [Goto ''https://x.test/login'',
         PageFill default_username_selector (Some ''admin@x.test''),
         PageFill default_password_selector (Some ''hunter2''),
         PageClick ''#submit'', WaitForSelector ''#dashboard'', Screenshot,
         UploadScreenshot ''s1'' ''2025-01-01T00-00-00-000Z''])"
    by (simp add: admin_options_def capture_screenshot_def locked_browser_def quiet_browser_def
        save_story_def file_timestamp_def truthy_def auth_failed_def initial_run_state_def Let_def)
  with c a f l show ?thesis by simp
qed

text \<open>What the retry loop adds to the history, from any state of its variables.\<close>

lemma retry_loop_history:
  "retry_loop e step i rc a tr = ((x, a'), tr') \<Longrightarrow>
     \<exists>h. history a' = history a @ h
        \<and> (\<forall>r \<in> set (butlast h). \<not> sr_passed r)
        \<and> retries_total a' = retries_total a + failed_attempts h
        \<and> (x = None \<longrightarrow>
              length h \<le> Suc rc - attempts a
              \<and> (h \<noteq> [] \<longrightarrow> stepResult a' = Some (last h))
              \<and> (h \<noteq> [] \<longrightarrow> \<not> sr_passed (last h) \<longrightarrow> lastError a' = sr_error (last h))
              \<and> (attempts a \<le> rc \<longrightarrow> h \<noteq> [])
              \<and> (h = [] \<longrightarrow> a' = a))
        \<and> (x \<noteq> None \<longrightarrow>
              h \<noteq> [] \<and> length h \<le> rc - attempts a \<and> (\<forall>r \<in> set h. \<not> sr_passed r))"
proof (induction e step i rc a tr arbitrary: x a' tr' rule: retry_loop.induct)
  case (1 e step i rc a tr)
  show ?case
  proof (cases "attempts a \<le> rc")
    case False
    with "1.prems" have "a' = a" "x = None" by (simp_all add: retry_loop.simps)
    with False show ?thesis by (simp add: failed_attempts_def)
  next
    case True
    obtain r tr1 where ex: "executeStep e step i tr = (r, tr1)" by (cases "executeStep e step i tr")
    show ?thesis
    proof (cases "sr_passed r")
      case pass: True
      with True ex "1.prems"
      have "a' = a\<lparr>stepResult := Some r, history := history a @ [r]\<rparr>" "x = None"
        by (simp_all add: retry_loop.simps)
      with pass True show ?thesis by (simp add: failed_attempts_def)
    next
      case fail: False
      define a1 where "a1 = a\<lparr>stepResult := Some r, history := history a @ [r],
                            lastError := sr_error r, attempts := attempts a + 1,
                            retries_total := retries_total a + 1\<rparr>"
      have unfold: "retry_loop e step i rc a tr =
          (if attempts a1 \<le> rc then
             (case waitForTimeout e (ms 1000) tr1 of
                (Inl m, tr2) \<Rightarrow> ((Some m, a1), tr2)
              | (Inr u, tr2) \<Rightarrow> retry_loop e step i rc a1 tr2)
           else retry_loop e step i rc a1 tr1)"
        using True ex fail unfolding a1_def
        by (simp add: retry_loop.simps [of e step i rc a tr] Let_def
            split: prod.splits sum.splits)
      have single: ?thesis if "x \<noteq> None" "a' = a1" "attempts a1 \<le> rc"
      proof -
        have "history a' = history a @ [r]" using that(2) by (simp add: a1_def)
        moreover have "retries_total a' = retries_total a + failed_attempts [r]"
          using that(2) fail by (simp add: a1_def failed_attempts_def)
        moreover have "length [r] \<le> rc - attempts a" using that(3) by (simp add: a1_def)
        ultimately show ?thesis using that(1) fail
          by (intro exI [of _ "[r]"]) auto
      qed
      have extend: ?thesis
        if rec: "retry_loop e step i rc a1 tr2 = ((x, a'), tr')"
          and ih: "\<exists>h. history a' = history a1 @ h
        \<and> (\<forall>r \<in> set (butlast h). \<not> sr_passed r)
        \<and> retries_total a' = retries_total a1 + failed_attempts h
        \<and> (x = None \<longrightarrow>
              length h \<le> Suc rc - attempts a1
              \<and> (h \<noteq> [] \<longrightarrow> stepResult a' = Some (last h))
              \<and> (h \<noteq> [] \<longrightarrow> \<not> sr_passed (last h) \<longrightarrow> lastError a' = sr_error (last h))
              \<and> (attempts a1 \<le> rc \<longrightarrow> h \<noteq> [])
              \<and> (h = [] \<longrightarrow> a' = a1))
        \<and> (x \<noteq> None \<longrightarrow>
              h \<noteq> [] \<and> length h \<le> rc - attempts a1 \<and> (\<forall>r \<in> set h. \<not> sr_passed r))" for tr2
      proof -
        from ih obtain h where h: "history a' = history a1 @ h"
          "\<forall>r \<in> set (butlast h). \<not> sr_passed r"
          "retries_total a' = retries_total a1 + failed_attempts h"
          "x = None \<longrightarrow>
              length h \<le> Suc rc - attempts a1
              \<and> (h \<noteq> [] \<longrightarrow> stepResult a' = Some (last h))
              \<and> (h \<noteq> [] \<longrightarrow> \<not> sr_passed (last h) \<longrightarrow> lastError a' = sr_error (last h))
              \<and> (attempts a1 \<le> rc \<longrightarrow> h \<noteq> [])
              \<and> (h = [] \<longrightarrow> a' = a1)"
          "x \<noteq> None \<longrightarrow>
              h \<noteq> [] \<and> length h \<le> rc - attempts a1 \<and> (\<forall>r \<in> set h. \<not> sr_passed r)"
          by blast
        have c1: "history a' = history a @ (r # h)" using h(1) by (simp add: a1_def)
        have c3: "\<forall>y \<in> set (butlast (r # h)). \<not> sr_passed y" using h(2) fail by simp
        have c4: "retries_total a' = retries_total a + failed_attempts (r # h)"
          using h(3) fail by (simp add: a1_def failed_attempts_def)
        have cn: "length (r # h) \<le> Suc rc - attempts a
              \<and> (r # h \<noteq> [] \<longrightarrow> stepResult a' = Some (last (r # h)))
              \<and> (r # h \<noteq> [] \<longrightarrow> \<not> sr_passed (last (r # h))
                    \<longrightarrow> lastError a' = sr_error (last (r # h)))
              \<and> (attempts a \<le> rc \<longrightarrow> r # h \<noteq> [])
              \<and> (r # h = [] \<longrightarrow> a' = a)" if "x = None"
        proof -
          from h(4) that have n: "length h \<le> Suc rc - attempts a1"
            "h \<noteq> [] \<longrightarrow> stepResult a' = Some (last h)"
            "h \<noteq> [] \<longrightarrow> \<not> sr_passed (last h) \<longrightarrow> lastError a' = sr_error (last h)"
            "h = [] \<longrightarrow> a' = a1" by simp_all
          have "length (r # h) \<le> Suc rc - attempts a" using n(1) True by (simp add: a1_def)
          moreover have "stepResult a' = Some (last (r # h))"
            using n(2) n(4) by (cases "h = []") (simp_all add: a1_def)
          moreover have "\<not> sr_passed (last (r # h)) \<longrightarrow> lastError a' = sr_error (last (r # h))"
            using n(3) n(4) by (cases "h = []") (simp_all add: a1_def)
          ultimately show ?thesis by simp
        qed
        have cs: "r # h \<noteq> [] \<and> length (r # h) \<le> rc - attempts a
                    \<and> (\<forall>y \<in> set (r # h). \<not> sr_passed y)" if "x \<noteq> None"
        proof -
          from h(5) that have s: "h \<noteq> []" "length h \<le> rc - attempts a1"
            "\<forall>y \<in> set h. \<not> sr_passed y" by simp_all
          from s(1) s(2) have "attempts a1 < rc" by (cases h) auto
          with s(2) have "length (r # h) \<le> rc - attempts a" by (simp add: a1_def)
          with s(3) fail show ?thesis by simp
        qed
        from c1 c3 c4 cn cs show ?thesis by (intro exI [of _ "r # h"]) blast
      qed
      show ?thesis
      proof (cases "attempts a1 \<le> rc")
        case more: True
        obtain res tr2 where w: "waitForTimeout e (ms 1000) tr1 = (res, tr2)"
          by (cases "waitForTimeout e (ms 1000) tr1")
        show ?thesis
        proof (cases res)
          case (Inl m)
          with unfold more w "1.prems" have "x = Some m" "a' = a1" by simp_all
          with single more show ?thesis by simp
        next
          case (Inr u)
          with unfold more w "1.prems" have rec: "retry_loop e step i rc a1 tr2 = ((x, a'), tr')"
            by simp
          from "1.IH"(1) [OF True ex [symmetric] fail a1_def more w [symmetric] Inr rec]
          show ?thesis by (rule extend [OF rec])
        qed
      next
        case last: False
        with unfold "1.prems" have rec: "retry_loop e step i rc a1 tr1 = ((x, a'), tr')" by simp
        from "1.IH"(2) [OF True ex [symmetric] fail a1_def last rec]
        show ?thesis by (rule extend [OF rec])
      qed
    qed
  qed
qed

lemma retry_loop_first_attempt:
  assumes "retry_loop e step i rc (first_attempt k) tr = ((x, a'), tr')"
  shows "history a' \<noteq> []
         \<and> (\<forall>r \<in> set (butlast (history a')). \<not> sr_passed r)
         \<and> retries_total a' = k + failed_attempts (history a')
         \<and> (x = None \<longrightarrow>
               length (history a') \<le> rc + 1
               \<and> stepResult a' = Some (last (history a'))
               \<and> (\<not> sr_passed (last (history a'))
                     \<longrightarrow> lastError a' = sr_error (last (history a'))))
         \<and> (x \<noteq> None \<longrightarrow>
               length (history a') \<le> rc \<and> (\<forall>r \<in> set (history a'). \<not> sr_passed r))"
proof -
  from retry_loop_history [OF assms]
  obtain h where h: "history a' = history (first_attempt k) @ h"
        "\<forall>r \<in> set (butlast h). \<not> sr_passed r"
        "retries_total a' = retries_total (first_attempt k) + failed_attempts h"
        "x = None \<longrightarrow>
              length h \<le> Suc rc - attempts (first_attempt k)
              \<and> (h \<noteq> [] \<longrightarrow> stepResult a' = Some (last h))
              \<and> (h \<noteq> [] \<longrightarrow> \<not> sr_passed (last h) \<longrightarrow> lastError a' = sr_error (last h))
              \<and> (attempts (first_attempt k) \<le> rc \<longrightarrow> h \<noteq> [])
              \<and> (h = [] \<longrightarrow> a' = first_attempt k)"
        "x \<noteq> None \<longrightarrow>
              h \<noteq> [] \<and> length h \<le> rc - attempts (first_attempt k)
              \<and> (\<forall>r \<in> set h. \<not> sr_passed r)"
    by blast
  have eq: "history a' = h" using h(1) by (simp add: first_attempt_def)
  have ne: "h \<noteq> []" using h(4) h(5) by (cases x) (simp_all add: first_attempt_def)
  from h(2-5) ne show ?thesis unfolding eq by (simp add: first_attempt_def)
qed

lemma failed_attempts_all:
  "\<forall>r \<in> set h. \<not> sr_passed r \<Longrightarrow> failed_attempts h = length h"
  by (simp add: failed_attempts_def)

lemma step_loop_invariant:
  "retry_invariant (retryCount opts) st \<Longrightarrow> rs_interrupted st = [] \<Longrightarrow>
   step_loop e sid opts i ss st tr = ((x, st'), tr') \<Longrightarrow>
   retry_invariant (retryCount opts) st'"
proof (induction ss arbitrary: i st tr)
  case Nil
  then show ?case by simp
next
  case (Cons step rest)
  obtain y a tr1 where loop:
    "retry_loop e step i (retryCount opts) (first_attempt (rs_retries st)) tr = ((y, a), tr1)"
    by (metis surj_pair)
  note fa = retry_loop_first_attempt [OF loop]
  show ?case
  proof (cases y)
    case (Some m)
    with Cons.prems(3) loop
    have st': "st' = st\<lparr>rs_retries := retries_total a, rs_interrupted := history a\<rparr>"
      by simp
    from fa Some have f: "length (history a) \<le> retryCount opts"
      "\<forall>r \<in> set (history a). \<not> sr_passed r"
      "retries_total a = rs_retries st + failed_attempts (history a)" by simp_all
    from f(2) have "failed_attempts (history a) = length (history a)"
      by (rule failed_attempts_all)
    with Cons.prems(1,2) f show ?thesis
      by (simp add: retry_invariant_def st')
  next
    case None
    define r where "r = last (history a)"
    from fa None have sr: "stepResult a = Some r" by (simp add: r_def)
    define st1 where "st1 = st\<lparr>rs_stepResults := rs_stepResults st @ [r],
                                rs_retries := retries_total a,
                                rs_attempts := rs_attempts st @ [history a]\<rparr>"
    have inv1: "retry_invariant (retryCount opts) st1"
      using Cons.prems(1,2) fa None by (simp add: retry_invariant_def st1_def r_def)
    have int1: "rs_interrupted st1 = []" using Cons.prems(2) by (simp add: st1_def)
    show ?thesis
    proof (cases "sr_passed r")
      case True
      with Cons.prems(3) loop None sr
      have "step_loop e sid opts (i + 1) rest st1 tr1 = ((x, st'), tr')"
        by (simp add: st1_def Let_def)
      from Cons.IH [OF inv1 int1 this] show ?thesis .
    next
      case False
      define st2 where "st2 = st1\<lparr>rs_passed := False, rs_error := lastError a\<rparr>"
      have inv2: "retry_invariant (retryCount opts) st2"
        using inv1 by (simp add: retry_invariant_def st2_def)
      have "st' = st2 \<or> (\<exists>u. st' = st2\<lparr>rs_screenshotUrl := u\<rparr>)"
        using Cons.prems(3) loop None sr False
        by (auto simp: st1_def st2_def Let_def split: if_splits prod.splits sum.splits)
      with inv2 show ?thesis by (auto simp: retry_invariant_def)
    qed
  qed
qed

lemma verify_outcome_keeps:
  "verify_outcome e story opts st tr = ((x, st'), tr') \<Longrightarrow>
     rs_stepResults st' = rs_stepResults st \<and> rs_attempts st' = rs_attempts st
     \<and> rs_retries st' = rs_retries st \<and> rs_interrupted st' = rs_interrupted st"
  by (auto simp: verify_outcome_def Let_def split: option.splits if_splits prod.splits sum.splits)

lemma catch_block_keeps:
  "catch_block e story opts m st tr = (st', tr') \<Longrightarrow>
     rs_stepResults st' = rs_stepResults st \<and> rs_attempts st' = rs_attempts st
     \<and> rs_retries st' = rs_retries st \<and> rs_interrupted st' = rs_interrupted st
     \<and> \<not> rs_passed st' \<and> rs_error st' = Some m"
  by (auto simp: catch_block_def Let_def split: if_splits prod.splits sum.splits)

lemma retry_invariant_cong:
  "retry_invariant rc st \<Longrightarrow> rs_stepResults st' = rs_stepResults st \<Longrightarrow>
   rs_attempts st' = rs_attempts st \<Longrightarrow> rs_retries st' = rs_retries st \<Longrightarrow>
   rs_interrupted st' = rs_interrupted st \<Longrightarrow> retry_invariant rc st'"
  by (simp add: retry_invariant_def)

lemma try_block_invariant:
  assumes "try_block e story baseUrl opts tr = ((x, st), tr')"
  shows "retry_invariant (retryCount opts) st"
proof -
  have init: "retry_invariant (retryCount opts) initial_run_state"
    by (simp add: retry_invariant_def initial_run_state_def)
  have int0: "rs_interrupted initial_run_state = []" by (simp add: initial_run_state_def)
  show ?thesis
  proof (cases "open_session e baseUrl opts tr")
    case (Pair res tr1)
    show ?thesis
    proof (cases res)
      case (Inl m)
      with Pair assms init show ?thesis by (simp add: try_block_def)
    next
      case (Inr u)
      obtain y st1 tr2 where sl:
        "step_loop e (story_id story) opts 0 (steps story) initial_run_state tr1 = ((y, st1), tr2)"
        by (metis surj_pair)
      note inv1 = step_loop_invariant [OF init int0 sl]
      show ?thesis
      proof (cases y)
        case None
        with Pair Inr sl assms have "verify_outcome e story opts st1 tr2 = ((x, st), tr')"
          by (simp add: try_block_def)
        from verify_outcome_keeps [OF this] inv1 show ?thesis
          by (auto intro: retry_invariant_cong)
      next
        case (Some m)
        with Pair Inr sl assms have "st = st1" by (simp add: try_block_def)
        with inv1 show ?thesis by simp
      qed
    qed
  qed
qed

lemma run_story_invariant:
  assumes "run_story e story baseUrl opts tr = (st, tr')"
  shows "retry_invariant (retryCount opts) st"
proof -
  obtain x st0 tr0 where tb: "try_block e story baseUrl opts tr = ((x, st0), tr0)"
    by (metis surj_pair)
  note inv = try_block_invariant [OF tb]
  show ?thesis
  proof (cases x)
    case None
    with tb assms inv show ?thesis by (simp add: run_story_def)
  next
    case (Some m)
    with tb assms have "catch_block e story opts m st0 tr0 = (st, tr')" by (simp add: run_story_def)
    from catch_block_keeps [OF this] inv show ?thesis by (auto intro: retry_invariant_cong)
  qed
qed

text \<open>An attempt that passed is the last one of its step.\<close>

lemma passed_attempt_is_last:
  assumes "\<forall>r \<in> set (butlast h). \<not> sr_passed r" and "j < length h" and "sr_passed (h ! j)"
  shows "length h = Suc j"
proof (rule ccontr)
  assume "length h \<noteq> Suc j"
  with assms(2) have "j < length (butlast h)" by simp
  then have "butlast h ! j \<in> set (butlast h)" by (rule nth_mem)
  moreover from \<open>j < length (butlast h)\<close> have "butlast h ! j = h ! j" by (rule nth_butlast)
  ultimately show False using assms(1,3) by simp
qed

lemma third_attempt_kept_holds:
  assumes "\<forall>r \<in> set (butlast h). \<not> sr_passed r"
  shows "third_attempt_kept h"
  unfolding third_attempt_kept_def
proof (intro impI, elim conjE)
  assume len: "3 \<le> length h" and p: "sr_passed (h ! 2)"
  from len have "2 < length h" by simp
  from passed_attempt_is_last [OF assms this p] have l3: "length h = 3" by simp
  then obtain a b c where h: "h = [a, b, c]"
    by (cases h; cases "tl h"; cases "tl (tl h)") auto
  from assms h have "\<not> sr_passed a" "\<not> sr_passed b" by simp_all
  with p h show "length h = 3 \<and> last h = h ! 2 \<and> failed_attempts h = 2"
    by (simp add: failed_attempts_def)
qed

lemma retry_loop_third_attempt:
  assumes "executeStep e step i t0 = (r1, t1)" and "\<not> sr_passed r1"
    and "outcome e t1 (WaitForTimeout (ms 1000)) = None"
    and "executeStep e step i (t1 @ [WaitForTimeout (ms 1000)]) = (r2, t2)" and "\<not> sr_passed r2"
    and "outcome e t2 (WaitForTimeout (ms 1000)) = None"
    and "executeStep e step i (t2 @ [WaitForTimeout (ms 1000)]) = (r3, t3)" and "sr_passed r3"
  shows "retry_loop e step i 2 (first_attempt k) t0 =
           ((None, \<lparr>attempts = 2, lastError = sr_error r2, retries_total = k + 2,
                    stepResult = Some r3, history = [r1, r2, r3]\<rparr>), t3)"
  using assms
  by (simp add: retry_loop.simps first_attempt_def waitForTimeout_def do_call_def Let_def)

lemma retry_loop_pause_rejects:
  assumes "executeStep e step i t0 = (r1, t1)" and "\<not> sr_passed r1" and "0 < rc"
    and "outcome e t1 (WaitForTimeout (ms 1000)) = Some m"
  shows "retry_loop e step i rc (first_attempt k) t0 =
           ((Some m, \<lparr>attempts = 1, lastError = sr_error r1, retries_total = k + 1,
                      stepResult = Some r1, history = [r1]\<rparr>),
            t1 @ [WaitForTimeout (ms 1000)])"
  using assms
  by (simp add: retry_loop.simps first_attempt_def waitForTimeout_def do_call_def Let_def)

lemma step_loop_interrupted:
  "rs_interrupted st = [] \<Longrightarrow> step_loop e sid opts i ss st tr = ((x, st'), tr') \<Longrightarrow>
   rs_interrupted st' \<noteq> [] \<Longrightarrow> x \<noteq> None"
proof (induction ss arbitrary: i st tr)
  case Nil
  then show ?case by simp
next
  case (Cons step rest)
  obtain y a tr1 where loop:
    "retry_loop e step i (retryCount opts) (first_attempt (rs_retries st)) tr = ((y, a), tr1)"
    by (metis surj_pair)
  show ?case
  proof (cases y)
    case (Some m)
    with Cons.prems(2) loop show ?thesis by auto
  next
    case None
    show ?thesis
    proof (cases "stepResult a")
      case None
      with Cons.prems(2) loop \<open>y = None\<close> show ?thesis by auto
    next
      case (Some r)
      define st1 where "st1 = st\<lparr>rs_stepResults := rs_stepResults st @ [r],
                                  rs_retries := retries_total a,
                                  rs_attempts := rs_attempts st @ [history a]\<rparr>"
      have int1: "rs_interrupted st1 = []" using Cons.prems(1) by (simp add: st1_def)
      show ?thesis
      proof (cases "sr_passed r")
        case True
        with Cons.prems(2) loop \<open>y = None\<close> Some
        have "step_loop e sid opts (i + 1) rest st1 tr1 = ((x, st'), tr')"
          by (simp add: st1_def Let_def)
        from Cons.IH [OF int1 this Cons.prems(3)] show ?thesis .
      next
        case False
        have "rs_interrupted st' = []"
          using Cons.prems(1,2) loop \<open>y = None\<close> Some False
          by (auto simp: Let_def split: if_splits prod.splits sum.splits)
        with Cons.prems(3) show ?thesis by simp
      qed
    qed
  qed
qed

lemma run_story_interrupted:
  assumes "run_story e story baseUrl opts tr = (st, tr')" and "rs_interrupted st \<noteq> []"
  shows "\<not> rs_passed st \<and> rs_error st \<noteq> None"
proof -
  obtain x st0 tr0 where tb: "try_block e story baseUrl opts tr = ((x, st0), tr0)"
    by (metis surj_pair)
  have int0: "rs_interrupted initial_run_state = []" by (simp add: initial_run_state_def)
  have thrown: "rs_interrupted st0 \<noteq> [] \<Longrightarrow> x \<noteq> None"
  proof (cases "open_session e baseUrl opts tr")
    case (Pair res tr1)
    assume ne: "rs_interrupted st0 \<noteq> []"
    show ?thesis
    proof (cases res)
      case (Inl m)
      with Pair tb show ?thesis by (auto simp: try_block_def)
    next
      case (Inr u)
      obtain y st1 tr2 where sl:
        "step_loop e (story_id story) opts 0 (steps story) initial_run_state tr1 = ((y, st1), tr2)"
        by (metis surj_pair)
      show ?thesis
      proof (cases y)
        case None
        with Pair Inr sl tb have vo: "verify_outcome e story opts st1 tr2 = ((x, st0), tr0)"
          by (simp add: try_block_def)
        from verify_outcome_keeps [OF vo] ne have "rs_interrupted st1 \<noteq> []" by simp
        from step_loop_interrupted [OF int0 sl this] None show ?thesis by simp
      next
        case (Some m)
        with Pair Inr sl tb show ?thesis by (auto simp: try_block_def)
      qed
    qed
  qed
  show ?thesis
  proof (cases x)
    case None
    with tb assms(1) have "st = st0" by (simp add: run_story_def)
    with thrown assms(2) None show ?thesis by simp
  next
    case (Some m)
    with tb assms(1) have "catch_block e story opts m st0 tr0 = (st, tr')"
      by (simp add: run_story_def)
    from catch_block_keeps [OF this] show ?thesis by simp
  qed
qed

lemma kept_attempts_third:
  assumes "retry_invariant rc st"
  shows "list_all third_attempt_kept (rs_attempts st)"
  using assms third_attempt_kept_holds
  by (simp add: retry_invariant_def list_all_iff)

text \<open>
  C1 as stated fails in its last part. In a browser whose page is closed after the first
  click has timed out, the pause before the second attempt rejects; it is awaited outside
  the \<open>try\<close> of \<open>executeStep\<close>, so the exception leaves the retry loop before the step's
  result is pushed. The story returns with \<open>retries = 1\<close> and an empty list of step
  results: the step was attempted and no attempt's result is kept.
\<close>

theorem retry_policy_counterexample:
  "retryCount two_retries = 2
   \<and> steps save_story = [save_step]
   \<and> in_context closing_browser save_story ''http://x.test'' two_retries [] =
       (Inr \<lparr>passed = False, duration_ms = 5, step_results = [],
             error = Some ''Target page, context or browser has been closed'',
             screenshot_url = None, console_errors = [], retries = 1\<rparr>,
        [Goto ''http://x.test'', Click (Css ''#save''), WaitForTimeout (ms 1000), Screenshot,
         ContextClose])"
  by (simp add: in_context_def eval_defs retry_loop.simps closing_browser_def save_story_def
      save_step_def two_retries_def)

text \<open>
  C1, amended. In every run of a story: each step whose retry loop runs to its end has
  between one and \<open>retryCount + 1\<close> attempts, all but the last of them failed, and the
  result kept for it is that of its last attempt; a step whose third attempt passed has
  exactly three attempts, of which the third is kept. The one step whose loop an exception
  leaves (a pause between two attempts that rejects) keeps no result, has at most
  \<open>retryCount\<close> attempts, all failed, and the story then ends with \<open>passed = false\<close> and an
  error. \<open>retries\<close> counts the failed attempts of all these steps. With \<open>retryCount = 2\<close>,
  a step that fails on its first two attempts and passes on the third, the two pauses
  between them resolving, leaves the loop with the third result and adds exactly 2 to
  \<open>retries\<close>, and the trace ends with the third attempt: there is no fourth. A step whose
  first attempt fails and whose pause rejects with message \<open>m\<close> leaves the loop with the
  exception \<open>m\<close> after that one attempt.
\<close>

theorem retry_policy:
  "retry_invariant (retryCount opts) (fst (run_story e story baseUrl opts tr))
   \<and> list_all third_attempt_kept (rs_attempts (fst (run_story e story baseUrl opts tr)))
   \<and> (rs_interrupted (fst (run_story e story baseUrl opts tr)) \<noteq> []
        \<longrightarrow> \<not> rs_passed (fst (run_story e story baseUrl opts tr))
            \<and> rs_error (fst (run_story e story baseUrl opts tr)) \<noteq> None)
   \<and> (executeStep e step i t0 = (r1, t1) \<and> \<not> sr_passed r1
        \<and> outcome e t1 (WaitForTimeout (ms 1000)) = None
        \<and> executeStep e step i (t1 @ [WaitForTimeout (ms 1000)]) = (r2, t2) \<and> \<not> sr_passed r2
        \<and> outcome e t2 (WaitForTimeout (ms 1000)) = None
        \<and> executeStep e step i (t2 @ [WaitForTimeout (ms 1000)]) = (r3, t3) \<and> sr_passed r3
      \<longrightarrow> retry_loop e step i 2 (first_attempt k) t0 =
            ((None, \<lparr>attempts = 2, lastError = sr_error r2, retries_total = k + 2,
                     stepResult = Some r3, history = [r1, r2, r3]\<rparr>), t3))
   \<and> (executeStep e step i t0 = (r1, t1) \<and> \<not> sr_passed r1 \<and> 0 < rc
        \<and> outcome e t1 (WaitForTimeout (ms 1000)) = Some m
      \<longrightarrow> retry_loop e step i rc (first_attempt k) t0 =
            ((Some m, \<lparr>attempts = 1, lastError = sr_error r1, retries_total = k + 1,
                       stepResult = Some r1, history = [r1]\<rparr>),
             t1 @ [WaitForTimeout (ms 1000)]))"
proof -
  obtain st tr' where run: "run_story e story baseUrl opts tr = (st, tr')"
    by (cases "run_story e story baseUrl opts tr")
  note inv = run_story_invariant [OF run]
  have a: "retry_invariant (retryCount opts) (fst (run_story e story baseUrl opts tr))"
    using inv run by simp
  have b: "list_all third_attempt_kept (rs_attempts (fst (run_story e story baseUrl opts tr)))"
    using kept_attempts_third [OF inv] run by simp
  have c: "rs_interrupted (fst (run_story e story baseUrl opts tr)) \<noteq> []
        \<longrightarrow> \<not> rs_passed (fst (run_story e story baseUrl opts tr))
            \<and> rs_error (fst (run_story e story baseUrl opts tr)) \<noteq> None"
    using run_story_interrupted [OF run] run by simp
  have d: "executeStep e step i t0 = (r1, t1) \<and> \<not> sr_passed r1
        \<and> outcome e t1 (WaitForTimeout (ms 1000)) = None
        \<and> executeStep e step i (t1 @ [WaitForTimeout (ms 1000)]) = (r2, t2) \<and> \<not> sr_passed r2
        \<and> outcome e t2 (WaitForTimeout (ms 1000)) = None
        \<and> executeStep e step i (t2 @ [WaitForTimeout (ms 1000)]) = (r3, t3) \<and> sr_passed r3
      \<longrightarrow> retry_loop e step i 2 (first_attempt k) t0 =
            ((None, \<lparr>attempts = 2, lastError = sr_error r2, retries_total = k + 2,
                     stepResult = Some r3, history = [r1, r2, r3]\<rparr>), t3)"
    using retry_loop_third_attempt [of e step i t0 r1 t1 r2 t2 r3 t3 k] by blast
  have f: "executeStep e step i t0 = (r1, t1) \<and> \<not> sr_passed r1 \<and> 0 < rc
        \<and> outcome e t1 (WaitForTimeout (ms 1000)) = Some m
      \<longrightarrow> retry_loop e step i rc (first_attempt k) t0 =
            ((Some m, \<lparr>attempts = 1, lastError = sr_error r1, retries_total = k + 1,
                       stepResult = Some r1, history = [r1]\<rparr>),
             t1 @ [WaitForTimeout (ms 1000)])"
    using retry_loop_pause_rejects [of e step i t0 r1 t1 rc m k] by blast
  from a b c d f show ?thesis by (intro conjI)
qed

text \<open>The run of the one-step story in the browser whose first two clicks time out.\<close>

lemma save_step_first:
  "executeStep flaky_browser save_step 0 [Goto ''http://x.test''] =
     (save_timeout, [Goto ''http://x.test'', Click (Css ''#save'')])"
  by (simp add: eval_defs flaky_browser_def save_step_def save_timeout_def)

lemma save_step_second:
  "executeStep flaky_browser save_step 0
     [Goto ''http://x.test'', Click (Css ''#save''), WaitForTimeout (ms 1000)] =
     (save_timeout, [Goto ''http://x.test'', Click (Css ''#save''), WaitForTimeout (ms 1000),
                     Click (Css ''#save'')])"
  by (simp add: eval_defs flaky_browser_def save_step_def save_timeout_def)

lemma save_step_third:
  "executeStep flaky_browser save_step 0
     [Goto ''http://x.test'', Click (Css ''#save''), WaitForTimeout (ms 1000),
      Click (Css ''#save''), WaitForTimeout (ms 1000)] =
     (save_done, [Goto ''http://x.test'', Click (Css ''#save''), WaitForTimeout (ms 1000),
                  Click (Css ''#save''), WaitForTimeout (ms 1000), Click (Css ''#save''),
                  WaitForTimeout (ms 100)])"
  by (simp add: eval_defs flaky_browser_def save_step_def save_done_def)

lemma save_story_run:
  "run_story flaky_browser save_story ''http://x.test'' two_retries [] =
     (\<lparr>rs_passed = True, rs_error = None, rs_screenshotUrl = None,
       rs_stepResults = [save_done], rs_retries = 2,
       rs_attempts = [[save_timeout, save_timeout, save_done]], rs_interrupted = []\<rparr>,
      [Goto ''http://x.test'', Click (Css ''#save''), WaitForTimeout (ms 1000),
       Click (Css ''#save''), WaitForTimeout (ms 1000), Click (Css ''#save''),
       WaitForTimeout (ms 100)])"
  by (simp add: eval_defs retry_loop.simps flaky_browser_def save_story_def save_step_def two_retries_def
      save_timeout_def save_done_def)

text \<open>The run of the same story in the browser whose page closes after the first click.\<close>

lemma save_step_closing:
  "executeStep closing_browser save_step 0 [Goto ''http://x.test''] =
     (save_timeout, [Goto ''http://x.test'', Click (Css ''#save'')])"
  by (simp add: eval_defs closing_browser_def save_step_def save_timeout_def)

lemma save_story_closing:
  "run_story closing_browser save_story ''http://x.test'' two_retries [] =
     (\<lparr>rs_passed = False, rs_error = Some ''Target page, context or browser has been closed'',
       rs_screenshotUrl = None, rs_stepResults = [], rs_retries = 1,
       rs_attempts = [], rs_interrupted = [save_timeout]\<rparr>,
      [Goto ''http://x.test'', Click (Css ''#save''), WaitForTimeout (ms 1000), Screenshot])"
  by (simp add: eval_defs retry_loop.simps closing_browser_def save_story_def save_step_def
      two_retries_def save_timeout_def)

theorem retry_policy_witness:
  "retry_invariant 2
     \<lparr>rs_passed = True, rs_error = None, rs_screenshotUrl = None,
       rs_stepResults = [save_done], rs_retries = 2,
       rs_attempts = [[save_timeout, save_timeout, save_done]], rs_interrupted = []\<rparr>
   \<and> list_all third_attempt_kept [[save_timeout, save_timeout, save_done]]
   \<and> sr_passed ([save_timeout, save_timeout, save_done] ! 2)
   \<and> retry_loop flaky_browser save_step 0 2 (first_attempt 0) [Goto ''http://x.test''] =
       ((None, \<lparr>attempts = 2, lastError = Some ''Timeout 30000ms exceeded'', retries_total = 2,
          stepResult = Some save_done, history = [save_timeout, save_timeout, save_done]\<rparr>),
        [Goto ''http://x.test'', Click (Css ''#save''), WaitForTimeout (ms 1000),
         Click (Css ''#save''), WaitForTimeout (ms 1000), Click (Css ''#save''),
         WaitForTimeout (ms 100)])
   \<and> rs_interrupted (fst (run_story closing_browser save_story ''http://x.test'' two_retries []))
       = [save_timeout]
   \<and> \<not> rs_passed (fst (run_story closing_browser save_story ''http://x.test'' two_retries []))
   \<and> rs_error (fst (run_story closing_browser save_story ''http://x.test'' two_retries [])) \<noteq> None
   \<and> retry_loop closing_browser save_step 0 2 (first_attempt 0) [Goto ''http://x.test''] =
       ((Some ''Target page, context or browser has been closed'',
         \<lparr>attempts = 1, lastError = Some ''Timeout 30000ms exceeded'', retries_total = 1,
          stepResult = Some save_timeout, history = [save_timeout]\<rparr>),
        [Goto ''http://x.test'', Click (Css ''#save''), WaitForTimeout (ms 1000)])"
proof -
  note policy = retry_policy [where opts = two_retries and e = flaky_browser and story = save_story
      and baseUrl = "''http://x.test''" and tr = "[]" and step = save_step and i = 0
      and ?t0.0 = "[Goto ''http://x.test'']" and ?r1.0 = save_timeout and ?r2.0 = save_timeout
      and ?r3.0 = save_done
      and ?t1.0 = "[Goto ''http://x.test'', Click (Css ''#save'')]"
      and ?t2.0 = "[Goto ''http://x.test'', Click (Css ''#save''), WaitForTimeout (ms 1000),
                     Click (Css ''#save'')]"
      and ?t3.0 = "[Goto ''http://x.test'', Click (Css ''#save''), WaitForTimeout (ms 1000),
                  Click (Css ''#save''), WaitForTimeout (ms 1000), Click (Css ''#save''),
                  WaitForTimeout (ms 100)]" and k = 0]
  note closing = retry_policy [where opts = two_retries and e = closing_browser
      and story = save_story and baseUrl = "''http://x.test''" and tr = "[]" and step = save_step
      and i = 0 and ?t0.0 = "[Goto ''http://x.test'']" and ?r1.0 = save_timeout
      and ?t1.0 = "[Goto ''http://x.test'', Click (Css ''#save'')]" and rc = 2
      and m = "''Target page, context or browser has been closed''" and k = 0]
  from policy
  have "retry_invariant (retryCount two_retries)
          (fst (run_story flaky_browser save_story ''http://x.test'' two_retries []))"
    by (rule conjunct1)
  then have story_level: "retry_invariant 2
     \<lparr>rs_passed = True, rs_error = None, rs_screenshotUrl = None,
       rs_stepResults = [save_done], rs_retries = 2,
       rs_attempts = [[save_timeout, save_timeout, save_done]], rs_interrupted = []\<rparr>"
    unfolding save_story_run by (simp add: two_retries_def)
  from policy
  have "list_all third_attempt_kept
          (rs_attempts (fst (run_story flaky_browser save_story ''http://x.test'' two_retries [])))"
    by simp
  then have kept: "list_all third_attempt_kept [[save_timeout, save_timeout, save_done]]"
    unfolding save_story_run by simp
  have third: "sr_passed ([save_timeout, save_timeout, save_done] ! 2)"
    by (simp add: save_done_def)
  have pause1: "outcome flaky_browser [Goto ''http://x.test'', Click (Css ''#save'')]
                  (WaitForTimeout (ms 1000)) = None"
    by (simp add: flaky_browser_def quiet_browser_def)
  have pause2: "outcome flaky_browser
                  [Goto ''http://x.test'', Click (Css ''#save''), WaitForTimeout (ms 1000),
                   Click (Css ''#save'')] (WaitForTimeout (ms 1000)) = None"
    by (simp add: flaky_browser_def quiet_browser_def)
  from policy save_step_first save_step_second save_step_third pause1 pause2
  have "retry_loop flaky_browser save_step 0 2 (first_attempt 0) [Goto ''http://x.test''] =
       ((None, \<lparr>attempts = 2, lastError = sr_error save_timeout, retries_total = 0 + 2,
         stepResult = Some save_done, history = [save_timeout, save_timeout, save_done]\<rparr>),
        [Goto ''http://x.test'', Click (Css ''#save''), WaitForTimeout (ms 1000),
         Click (Css ''#save''), WaitForTimeout (ms 1000), Click (Css ''#save''),
         WaitForTimeout (ms 100)])"
    by (simp add: save_timeout_def save_done_def)
  then have loop_level:
    "retry_loop flaky_browser save_step 0 2 (first_attempt 0) [Goto ''http://x.test''] =
       ((None, \<lparr>attempts = 2, lastError = Some ''Timeout 30000ms exceeded'', retries_total = 2,
         stepResult = Some save_done, history = [save_timeout, save_timeout, save_done]\<rparr>),
        [Goto ''http://x.test'', Click (Css ''#save''), WaitForTimeout (ms 1000),
         Click (Css ''#save''), WaitForTimeout (ms 1000), Click (Css ''#save''),
         WaitForTimeout (ms 100)])"
    by (simp add: save_timeout_def)
  have int: "rs_interrupted (fst (run_story closing_browser save_story ''http://x.test'' two_retries []))
       = [save_timeout]"
    unfolding save_story_closing by simp
  then have "rs_interrupted (fst (run_story closing_browser save_story ''http://x.test'' two_retries []))
       \<noteq> []" by simp
  with closing
  have failed: "\<not> rs_passed (fst (run_story closing_browser save_story ''http://x.test'' two_retries []))
     \<and> rs_error (fst (run_story closing_browser save_story ''http://x.test'' two_retries [])) \<noteq> None"
    by blast
  have pause: "outcome closing_browser [Goto ''http://x.test'', Click (Css ''#save'')]
                  (WaitForTimeout (ms 1000)) = Some ''Target page, context or browser has been closed''"
    by (simp add: closing_browser_def quiet_browser_def)
  have nopass: "\<not> sr_passed save_timeout" by (simp add: save_timeout_def)
  from closing save_step_closing pause nopass
  have "retry_loop closing_browser save_step 0 2 (first_attempt 0) [Goto ''http://x.test''] =
       ((Some ''Target page, context or browser has been closed'',
         \<lparr>attempts = 1, lastError = sr_error save_timeout, retries_total = 0 + 1,
          stepResult = Some save_timeout, history = [save_timeout]\<rparr>),
        [Goto ''http://x.test'', Click (Css ''#save'')] @ [WaitForTimeout (ms 1000)])"
    by simp
  then have interrupted:
    "retry_loop closing_browser save_step 0 2 (first_attempt 0) [Goto ''http://x.test''] =
       ((Some ''Target page, context or browser has been closed'',
         \<lparr>attempts = 1, lastError = Some ''Timeout 30000ms exceeded'', retries_total = 1,
          stepResult = Some save_timeout, history = [save_timeout]\<rparr>),
        [Goto ''http://x.test'', Click (Css ''#save''), WaitForTimeout (ms 1000)])"
    by (simp add: save_timeout_def)
  from story_level kept third loop_level int failed interrupted show ?thesis by simp
qed

lemma url_mismatch_mentions:
  "str_includes (url_mismatch x u) x \<and> str_includes (url_mismatch x u) u"
proof -
  have a: "url_mismatch x u =
      (''Expected URL to contain '' @ [CHR 0x22]) @ x
        @ ([CHR 0x22] @ '', got '' @ [CHR 0x22] @ u @ [CHR 0x22])"
    by (simp add: url_mismatch_def)
  have b: "url_mismatch x u =
      (''Expected URL to contain '' @ [CHR 0x22] @ x @ [CHR 0x22] @ '', got '' @ [CHR 0x22]) @ u
        @ [CHR 0x22]"
    by (simp add: url_mismatch_def)
  show ?thesis
    using str_includes_middle [of "''Expected URL to contain '' @ [CHR 0x22]" x]
          str_includes_middle [of "''Expected URL to contain '' @ [CHR 0x22] @ x @ [CHR 0x22]
             @ '', got '' @ [CHR 0x22]" u "[CHR 0x22]"]
    by (metis a b)
qed

text \<open>
  C6. A verification of type \<open>url\<close> passes exactly when the page's URL contains the
  expected string. When it passes the loop goes on with the remaining verifications; when
  it fails the loop stops there with the message \<open>url_mismatch\<close>, which contains both the
  expected string and the URL, and the remaining verifications make no call.
\<close>

theorem url_verification:
  assumes "vtype v = ''url''"
  shows "(fst (check_verification e v tr) = None \<longleftrightarrow> str_includes (page_url e tr) (expected v))
       \<and> (str_includes (page_url e tr) (expected v) \<longrightarrow>
            verify_loop e (v # vs) tr = verify_loop e vs tr)
       \<and> (\<not> str_includes (page_url e tr) (expected v) \<longrightarrow>
            verify_loop e (v # vs) tr = (Some (url_mismatch (expected v) (page_url e tr)), tr)
            \<and> str_includes (url_mismatch (expected v) (page_url e tr)) (expected v)
            \<and> str_includes (url_mismatch (expected v) (page_url e tr)) (page_url e tr))"
  using assms url_mismatch_mentions [of "expected v" "page_url e tr"]
  by (simp add: check_verification_def Let_def)

text \<open>
  The same at the level of the story, when the failing check is the first one: the
  verification part ends with \<open>passed = false\<close> and the mismatch as the error. (\<open>x\<close> is the
  exception of the screenshot that may follow; the \<open>catch\<close> block then records that
  exception as the error.)
\<close>

lemma url_failure_fails_story:
  assumes "rs_passed st" and "verifications story = Some (v # vs)" and "vtype v = ''url''"
    and "\<not> str_includes (page_url e tr) (expected v)"
  shows "\<exists>x st' tr'. verify_outcome e story opts st tr = ((x, st'), tr')
           \<and> \<not> rs_passed st'
           \<and> rs_error st' = Some (url_mismatch (expected v) (page_url e tr))"
  using assms
  by (auto simp: verify_outcome_def check_verification_def Let_def
      split: prod.splits sum.splits)

theorem url_verification_witness:
  \<open>vtype dashboard_check = ''url''
   \<and> str_includes ''https://x.test/dashboard?x=1'' ''/dashboard''
   \<and> fst (check_verification (browser_at ''https://x.test/dashboard?x=1'') dashboard_check []) = None
   \<and> \<not> str_includes ''https://x.test/login'' ''/dashboard''
   \<and> verify_loop (browser_at ''https://x.test/login'') [dashboard_check, heading_check] []
       = (Some ''Expected URL to contain "/dashboard", got "https://x.test/login"'', [])\<close>
proof -
  have t: "vtype dashboard_check = ''url''" by (simp add: dashboard_check_def)
  note shown = url_verification [OF t, of "browser_at ''https://x.test/dashboard?x=1''" "[]" "[]"]
  note hidden = url_verification [OF t, of "browser_at ''https://x.test/login''" "[]" "[heading_check]"]
  have yes: "str_includes ''https://x.test/dashboard?x=1'' ''/dashboard''" by simp
  have no: "\<not> str_includes ''https://x.test/login'' ''/dashboard''" by simp
  from shown yes
  have pass: "fst (check_verification (browser_at ''https://x.test/dashboard?x=1'') dashboard_check []) = None"
    by (simp add: browser_at_def dashboard_check_def)
  from hidden no
  have "verify_loop (browser_at ''https://x.test/login'') [dashboard_check, heading_check] []
       = (Some (url_mismatch ''/dashboard'' ''https://x.test/login''), [])"
    by (simp add: browser_at_def dashboard_check_def)
  then have fail: \<open>verify_loop (browser_at ''https://x.test/login'') [dashboard_check, heading_check] []
       = (Some ''Expected URL to contain "/dashboard", got "https://x.test/login"'', [])\<close>
    by (simp add: url_mismatch_def)
  from t yes pass no fail show ?thesis by simp
qed

section \<open>Properties of the run orchestrator\<close>

lemma story_loop_cancelled:
  "k < length rows \<Longrightarrow> status_read w (i + k) = Some ''cancelled'' \<Longrightarrow>
   (\<forall>j<k. status_read w (i + j) \<noteq> Some ''cancelled'') \<Longrightarrow>
   story_loop w env_row cm n i rows s = (True, clear_current (run_all w env_row cm n i (take k rows) s))"
proof (induction rows arbitrary: i k s)
  case Nil
  then show ?case by simp
next
  case (Cons row rows)
  show ?case
  proof (cases k)
    case 0
    with Cons.prems show ?thesis by simp
  next
    case (Suc k')
    from Cons.prems(3) Suc have now: "status_read w i \<noteq> Some ''cancelled''" by force
    have a: "k' < length rows" using Cons.prems(1) Suc by simp
    have b: "status_read w (i + 1 + k') = Some ''cancelled''" using Cons.prems(2) Suc by simp
    have c: "\<forall>j<k'. status_read w (i + 1 + j) \<noteq> Some ''cancelled''"
    proof (intro allI impI)
      fix j assume "j < k'"
      then have "Suc j < k" using Suc by simp
      with Cons.prems(3) have "status_read w (i + Suc j) \<noteq> Some ''cancelled''" by blast
      then show "status_read w (i + 1 + j) \<noteq> Some ''cancelled''" by simp
    qed
    from Cons.IH [OF a b c] now Suc show ?thesis by simp
  qed
qed

lemma run_one_logs:
  "map fst (last_results (run_one w env_row cm n i row s)) = map fst (last_results s) @ [row_id row]
   \<and> map tr_story_id (results (run_one w env_row cm n i row s))
       = map tr_story_id (results s) @ [row_id row]
   \<and> length (progress (run_one w env_row cm n i row s)) = length (progress s) + 1
   \<and> set (executed (run_one w env_row cm n i row s)) \<subseteq> set (executed s) \<union> {i}
   \<and> status (run (run_one w env_row cm n i row s)) = status (run s)"
  by (auto simp: run_one_def record_skip_def record_result_def record_exception_def
      persist_counters_def row_id_def Let_def split: option.splits sum.splits)

lemma run_all_executed:
  "set (executed (run_all w env_row cm n i rows s)) \<subseteq> set (executed s) \<union> {i..<i + length rows}"
proof (induction rows arbitrary: i s)
  case Nil
  then show ?case by simp
next
  case (Cons row rows)
  define s1 where "s1 = run_one w env_row cm n i row s"
  have e1: "set (executed s1) \<subseteq> set (executed s) \<union> {i}"
    using run_one_logs [of w env_row cm n i row s] by (simp add: s1_def)
  have e2: "set (executed (run_all w env_row cm n (i + 1) rows s1))
              \<subseteq> set (executed s1) \<union> {i + 1..<i + 1 + length rows}"
    by (rule Cons.IH)
  have e3: "{i} \<union> {i + 1..<i + 1 + length rows} = {i..<i + length (row # rows)}" by auto
  from e1 e2 have "set (executed (run_all w env_row cm n (i + 1) rows s1))
              \<subseteq> set (executed s) \<union> ({i} \<union> {i + 1..<i + 1 + length rows})" by blast
  then show ?case unfolding e3 by (simp add: s1_def)
qed

lemma run_all_logs:
  "map fst (last_results (run_all w env_row cm n i rows s))
       = map fst (last_results s) @ map row_id rows
   \<and> map tr_story_id (results (run_all w env_row cm n i rows s))
       = map tr_story_id (results s) @ map row_id rows
   \<and> length (progress (run_all w env_row cm n i rows s)) = length (progress s) + length rows
   \<and> status (run (run_all w env_row cm n i rows s)) = status (run s)"
proof (induction rows arbitrary: i s)
  case Nil
  then show ?case by simp
next
  case (Cons row rows)
  from run_one_logs [of w env_row cm n i row s]
       Cons.IH [of "i + 1" "run_one w env_row cm n i row s"]
  show ?case by simp
qed

lemma run_one_counters:
  "counters_agree s \<Longrightarrow> counters_agree (run_one w env_row cm n i row s)"
  by (auto simp: counters_agree_def outcome_count_def run_one_def record_skip_def
      record_result_def record_exception_def persist_counters_def Let_def
      split: option.splits sum.splits)

lemma run_all_counters:
  "counters_agree s \<Longrightarrow> counters_agree (run_all w env_row cm n i rows s)"
  by (induction rows arbitrary: i s) (auto intro: run_one_counters)

lemma run_one_persisted:
  "\<not> threw w env_row cm i row \<Longrightarrow>
     stories_failed (run (run_one w env_row cm n i row s)) = failed_count (run_one w env_row cm n i row s)"
  by (auto simp: threw_def run_one_def record_skip_def record_result_def persist_counters_def
      Let_def split: option.splits sum.splits)

lemma run_all_snoc:
  "run_all w env_row cm n i (rows @ [row]) s =
     run_one w env_row cm n (i + length rows) row (run_all w env_row cm n i rows s)"
  by (induction rows arbitrary: i s) simp_all

lemma take_last_row:
  assumes "0 < k" and "k \<le> length rows"
  shows "take k rows = take (k - 1) rows @ [rows ! (k - 1)]"
proof -
  from assms have "k - 1 < length rows" by simp
  then have "take (Suc (k - 1)) rows = take (k - 1) rows @ [rows ! (k - 1)]"
    by (rule take_Suc_conv_app_nth)
  with assms(1) show ?thesis by simp
qed

lemma before_loop_counters:
  "stories_passed r = 0 \<Longrightarrow> stories_failed r = 0 \<Longrightarrow> stories_skipped r = 0 \<Longrightarrow>
     counters_agree (before_loop (r\<lparr>status := x, stories_total := y\<rparr>))"
  by (simp add: counters_agree_def before_loop_def outcome_count_def)

text \<open>
  C4. Let the status read \<open>cancelled\<close> for the first time at the check before story \<open>k\<close>
  of a run that starts with zeroed counters. Then the orchestrator returns there: result
  rows and \<open>last_result\<close> entries exist for exactly the first \<open>k\<close> stories, \<open>executeStory\<close>
  was called for none of the stories from \<open>k\<close> on, the current-story markers are cleared
  and the run is not marked completed. The persisted counters count stories among the
  first \<open>k\<close> only: passed and skipped are exact, failed is never ahead, and failed is exact
  as well unless the call of \<open>executeStory\<close> for story \<open>k - 1\<close> threw.
\<close>

theorem cancellation_at_story_boundary:
  assumes "k < length stories"
    and "status_read w k = Some ''cancelled''"
    and "\<forall>j<k. status_read w j \<noteq> Some ''cancelled''"
    and "stories_passed r = 0" and "stories_failed r = 0" and "stories_skipped r = 0"
  shows "let s = executeTestRun w env_row cm stories r in
           map tr_story_id (results s) = map row_id (take k stories)
         \<and> map fst (last_results s) = map row_id (take k stories)
         \<and> set (executed s) \<subseteq> {..<k}
         \<and> length (progress s) = k
         \<and> current_story_id (run s) = None \<and> current_story_name (run s) = None
         \<and> status (run s) = ''running''
         \<and> stories_passed (run s) = outcome_count s ''passed''
         \<and> stories_skipped (run s) = outcome_count s ''skipped''
         \<and> stories_failed (run s) \<le> outcome_count s ''failed''
         \<and> (k = 0 \<or> \<not> threw w env_row cm (k - 1) (stories ! (k - 1))
              \<longrightarrow> stories_failed (run s) = outcome_count s ''failed'')"
proof -
  define s0 where "s0 = before_loop (r\<lparr>status := ''running'', stories_total := length stories\<rparr>)"
  define s1 where "s1 = run_all w env_row cm (length stories) 0 (take k stories) s0"
  have ne: "stories \<noteq> []" using assms(1) by auto
  have loop: "story_loop w env_row cm (length stories) 0 stories s0 = (True, clear_current s1)"
    using story_loop_cancelled [of k stories w 0 env_row cm "length stories" s0] assms(1-3)
    by (simp add: s1_def)
  have run: "executeTestRun w env_row cm stories r = clear_current s1"
    using ne loop by (simp add: executeTestRun_def s0_def)
  have len: "length (take k stories) = k" using assms(1) by simp
  note logs = run_all_logs [of w env_row cm "length stories" 0 "take k stories" s0, folded s1_def]
  have ex: "set (executed s1) \<subseteq> {..<k}"
    using run_all_executed [of w env_row cm "length stories" 0 "take k stories" s0] len
    by (auto simp: s1_def s0_def before_loop_def)
  have agree: "counters_agree s1"
    unfolding s1_def s0_def
    by (intro run_all_counters before_loop_counters assms(4-6))
  have exact: "stories_failed (run s1) = failed_count s1"
    if "k = 0 \<or> \<not> threw w env_row cm (k - 1) (stories ! (k - 1))"
  proof (cases "k = 0")
    case True
    then show ?thesis using assms(5) by (simp add: s1_def s0_def before_loop_def)
  next
    case False
    with that have nt: "\<not> threw w env_row cm (k - 1) (stories ! (k - 1))" by simp
    from False assms(1) have tk: "take k stories = take (k - 1) stories @ [stories ! (k - 1)]"
      by (intro take_last_row) simp_all
    have "length (take (k - 1) stories) = k - 1" using assms(1) by simp
    then have "s1 = run_one w env_row cm (length stories) (k - 1) (stories ! (k - 1))
                 (run_all w env_row cm (length stories) 0 (take (k - 1) stories) s0)"
      unfolding s1_def tk run_all_snoc by simp
    with run_one_persisted [OF nt] show ?thesis by simp
  qed
  have cc: "results (clear_current s1) = results s1"
    "last_results (clear_current s1) = last_results s1"
    "executed (clear_current s1) = executed s1"
    "progress (clear_current s1) = progress s1"
    "current_story_id (run (clear_current s1)) = None"
    "current_story_name (run (clear_current s1)) = None"
    "status (run (clear_current s1)) = status (run s1)"
    "stories_passed (run (clear_current s1)) = stories_passed (run s1)"
    "stories_failed (run (clear_current s1)) = stories_failed (run s1)"
    "stories_skipped (run (clear_current s1)) = stories_skipped (run s1)"
    "outcome_count (clear_current s1) = outcome_count s1"
    by (simp_all add: clear_current_def outcome_count_def fun_eq_iff)
  have st: "status (run s1) = ''running''"
    using logs by (simp add: s0_def before_loop_def)
  have r1: "map tr_story_id (results s1) = map row_id (take k stories)"
    and r2: "map fst (last_results s1) = map row_id (take k stories)"
    and r3: "length (progress s1) = k"
    using logs len by (simp_all add: s0_def before_loop_def)
  from agree have a1: "stories_passed (run s1) = outcome_count s1 ''passed''"
    and a2: "stories_skipped (run s1) = outcome_count s1 ''skipped''"
    and a3: "stories_failed (run s1) \<le> outcome_count s1 ''failed''"
    and a4: "failed_count s1 = outcome_count s1 ''failed''"
    by (simp_all add: counters_agree_def)
  show ?thesis
    unfolding run Let_def cc
    using r1 r2 r3 ex st a1 a2 a3 a4 exact by simp
qed

lemmas orchestration_defs = executeTestRun_def before_loop_def run_one_def record_skip_def
  record_result_def record_exception_def persist_counters_def clear_current_def
  skip_reason_def auth_not_configured_def missing_test_user_def story_credentials_def story_options_def lookup_credentials_def
  object_prototype_names_def browser_runner_def executeStory_def in_context_def getBrowser_def
  plain_row_def five_stories_def open_environment_def form_environment_def new_run_def
  cancelled_from_def

lemma skip_messages_mention_role:
  "str_includes (auth_not_configured role) role \<and> str_includes (missing_test_user role) role"
proof -
  have a: "auth_not_configured role = (''Story requires role '' @ [CHR 0x22]) @ role
             @ ([CHR 0x22] @ '' but environment auth is not configured for form login'')"
    by (simp add: auth_not_configured_def)
  have b: "missing_test_user role = ''Missing test user for required role: '' @ role @ []"
    by (simp add: missing_test_user_def)
  show ?thesis unfolding a b by (intro conjI str_includes_middle)
qed

lemma skip_reason_mentions_role:
  assumes "skip_reason env_row cm (Some role) = Some reason"
  shows "str_includes reason role"
proof -
  from assms have "reason = auth_not_configured role \<or> reason = missing_test_user role"
    by (auto simp: skip_reason_def split: if_splits option.splits)
  with skip_messages_mention_role [of role] show ?thesis by auto
qed

text \<open>
  The skip policy of C3 for every role that names no member of \<open>Object.prototype\<close>: the story is
  recorded as skipped with a reason that mentions the role, \<open>executeStory\<close> is not called,
  the skipped counter grows by one and the failed counter stays.
\<close>

lemma gating_skips:
  assumes "required_role (row_story row) = Some role" and "role \<noteq> []"
    and "auth_config env_row = None
         \<or> (\<exists>cfg. auth_config env_row = Some cfg \<and> auth_type cfg \<noteq> AuthForm)
         \<or> (cm role = None \<and> role \<notin> set object_prototype_names)"
  shows "\<exists>reason. str_includes reason role
           \<and> skip_reason env_row cm (required_role (row_story row)) = Some reason
           \<and> tr_error (last (results (run_one w env_row cm n i row s))) = Some reason
           \<and> executed (run_one w env_row cm n i row s) = executed s
           \<and> skipped_count (run_one w env_row cm n i row s) = skipped_count s + 1
           \<and> failed_count (run_one w env_row cm n i row s) = failed_count s
           \<and> stories_skipped (run (run_one w env_row cm n i row s)) = skipped_count s + 1
           \<and> last (last_results (run_one w env_row cm n i row s)) = (row_id row, ''skipped'')"
proof -
  have "\<exists>reason. skip_reason env_row cm (Some role) = Some reason"
    using assms(2,3)
    by (cases "auth_config env_row") (auto simp: skip_reason_def lookup_credentials_def)
  then obtain reason where r: "skip_reason env_row cm (Some role) = Some reason" ..
  note m = skip_reason_mentions_role [OF r]
  define s1 where "s1 = s\<lparr>progress := progress s @
                    [\<lparr>pu_total = n, pu_completed = i, pu_passed = passed_count s,
                      pu_failed = failed_count s, pu_skipped = skipped_count s,
                      pu_current = Some (title row)\<rparr>],
                 run := (run s)\<lparr>current_story_id := Some (story_id (row_story row)),
                                  current_story_name := Some (title row)\<rparr>\<rparr>"
  have one: "run_one w env_row cm n i row s = record_skip row reason s1"
    unfolding run_one_def Let_def assms(1) r s1_def by simp
  have "tr_error (last (results (record_skip row reason s1))) = Some reason
      \<and> executed (record_skip row reason s1) = executed s
      \<and> skipped_count (record_skip row reason s1) = skipped_count s + 1
      \<and> failed_count (record_skip row reason s1) = failed_count s
      \<and> stories_skipped (run (record_skip row reason s1)) = skipped_count s + 1
      \<and> last (last_results (record_skip row reason s1)) = (row_id row, ''skipped'')"
    by (simp add: record_skip_def persist_counters_def row_id_def s1_def)
  with m r assms(1) one show ?thesis by auto
qed

lemma two_of_five_run:
  "executeTestRun cancel_after_two open_environment Map.empty five_stories new_run =
     \<lparr>passed_count = 1, failed_count = 1, skipped_count = 0,
      run = \<lparr>status = ''running'', stories_total = 5, stories_passed = 1, stories_failed = 1,
              stories_skipped = 0, current_story_id = None, current_story_name = None\<rparr>,
      results =
        [\<lparr>tr_story_id = ''s1'', tr_journey_name = ''checkout'', tr_story_name = ''s1'',
          tr_passed = True, tr_duration_ms = 2, tr_error = None, tr_retries = 0,
          tr_steps = Some [], tr_screenshot_url = None, tr_console_errors = Some []\<rparr>,
         \<lparr>tr_story_id = ''s2'', tr_journey_name = ''checkout'', tr_story_name = ''s2'',
          tr_passed = False, tr_duration_ms = 4,
          tr_error = Some (url_mismatch ''/dashboard'' ''about:blank''), tr_retries = 0,
          tr_steps = Some [], tr_screenshot_url = None, tr_console_errors = Some []\<rparr>],
      last_results = [(''s1'', ''passed''), (''s2'', ''failed'')],
      progress =
        [\<lparr>pu_total = 5, pu_completed = 0, pu_passed = 0, pu_failed = 0, pu_skipped = 0,
          pu_current = Some ''Story s1''\<rparr>,
         \<lparr>pu_total = 5, pu_completed = 1, pu_passed = 1, pu_failed = 0, pu_skipped = 0,
          pu_current = Some ''Story s2''\<rparr>],
      executed = [0, 1]\<rparr>"
  by (simp add: orchestration_defs eval_defs cancel_after_two_def dashboard_check_def
      check_verification_def url_mismatch_def)

theorem cancellation_at_story_boundary_witness:
  "2 < length five_stories
   \<and> status_read cancel_after_two 2 = Some ''cancelled''
   \<and> list_all (\<lambda>j. status_read cancel_after_two j \<noteq> Some ''cancelled'') [0..<2]
   \<and> map tr_story_id
        (results (executeTestRun cancel_after_two open_environment Map.empty five_stories new_run))
       = [''s1'', ''s2'']
   \<and> executed (executeTestRun cancel_after_two open_environment Map.empty five_stories new_run)
       = [0, 1]
   \<and> run (executeTestRun cancel_after_two open_environment Map.empty five_stories new_run)
       = \<lparr>status = ''running'', stories_total = 5, stories_passed = 1, stories_failed = 1,
          stories_skipped = 0, current_story_id = None, current_story_name = None\<rparr>"
proof -
  have h1: "2 < length five_stories" by (simp add: five_stories_def)
  have h2: "status_read cancel_after_two 2 = Some ''cancelled''"
    by (simp add: cancel_after_two_def cancelled_from_def)
  have h3: "\<forall>j<2. status_read cancel_after_two j \<noteq> Some ''cancelled''"
    by (simp add: cancel_after_two_def cancelled_from_def)
  have h4: "stories_passed new_run = 0" "stories_failed new_run = 0" "stories_skipped new_run = 0"
    by (simp_all add: new_run_def)
  from cancellation_at_story_boundary [OF h1 h2 h3 h4, of open_environment Map.empty]
  have ids: "map tr_story_id
        (results (executeTestRun cancel_after_two open_environment Map.empty five_stories new_run))
       = map row_id (take 2 five_stories)"
    by (simp add: Let_def)
  have "take 2 five_stories = [plain_row ''s1'' None None, plain_row ''s2'' (Some [dashboard_check]) None]"
    by (simp add: five_stories_def)
  with ids have c1: "map tr_story_id
        (results (executeTestRun cancel_after_two open_environment Map.empty five_stories new_run))
       = [''s1'', ''s2'']"
    by (simp add: row_id_def plain_row_def)
  from h3 have h3': "list_all (\<lambda>j. status_read cancel_after_two j \<noteq> Some ''cancelled'') [0..<2]"
    by (simp add: list_all_iff)
  from h1 h2 h3' c1 show ?thesis by (simp add: two_of_five_run)
qed

text \<open>
  What holds of C5 on every path: the persisted counters never decrease, and a story whose
  run throws is caught, counted as failed by the loop and given a result row with the
  message. But that path leaves the run's row as it was.
\<close>

lemma run_one_monotone:
  assumes "counters_agree s"
  shows "stories_passed (run s) \<le> stories_passed (run (run_one w env_row cm n i row s))
       \<and> stories_failed (run s) \<le> stories_failed (run (run_one w env_row cm n i row s))
       \<and> stories_skipped (run s) \<le> stories_skipped (run (run_one w env_row cm n i row s))"
  using assms
  by (auto simp: counters_agree_def run_one_def record_skip_def record_result_def
      record_exception_def persist_counters_def Let_def split: option.splits sum.splits)

lemma thrown_story_is_counted:
  assumes "skip_reason env_row cm (required_role (row_story row)) = None"
    and "runner w i (row_story row) (base_url env_row) (story_options env_row cm row) = Inl m"
  shows "failed_count (run_one w env_row cm n i row s) = failed_count s + 1
       \<and> tr_error (last (results (run_one w env_row cm n i row s))) = Some m
       \<and> stories_passed (run (run_one w env_row cm n i row s)) = stories_passed (run s)
       \<and> stories_failed (run (run_one w env_row cm n i row s)) = stories_failed (run s)
       \<and> stories_skipped (run (run_one w env_row cm n i row s)) = stories_skipped (run s)"
  using assms by (simp add: run_one_def record_exception_def Let_def)

text \<open>
  C5 on the path it misses. The browser is closed, so \<open>executeStory\<close> throws for the first
  story. The orchestrator counts the story as failed and inserts its result row, but the
  run's row still says that no story has failed when the next story is due; the run is
  cancelled there, and the row keeps saying so.
\<close>

theorem thrown_story_not_persisted:
  "failed_count
      (run_one cancel_after_crash open_environment Map.empty 5 0 (plain_row ''s1'' None None)
         (before_loop (new_run\<lparr>status := ''running'', stories_total := 5\<rparr>))) = 1
   \<and> stories_failed (run
      (run_one cancel_after_crash open_environment Map.empty 5 0 (plain_row ''s1'' None None)
         (before_loop (new_run\<lparr>status := ''running'', stories_total := 5\<rparr>)))) = 0
   \<and> map tr_error
        (results (executeTestRun cancel_after_crash open_environment Map.empty five_stories new_run))
       = [Some ''browser.newContext: Target closed'']
   \<and> stories_failed
        (run (executeTestRun cancel_after_crash open_environment Map.empty five_stories new_run)) = 0"
  by (simp add: orchestration_defs eval_defs cancel_after_crash_def closed_browser_def)

text \<open>
  C3 on the input it misses. The story requires the role \<open>constructor\<close>, the environment
  uses form login and there is no test user at all. \<open>credentialsMap["constructor"]\<close> is the
  function every object inherits, so no skip reason is set: \<open>executeStory\<close> is called with
  a credential object without fields, the login fails, and the story is counted as
  failed, not as skipped.
\<close>

theorem inherited_role_not_skipped:
  "required_role (row_story (plain_row ''s9'' None (Some ''constructor''))) = Some ''constructor''
   \<and> auth_config form_environment = Some form_login
   \<and> skip_reason form_environment Map.empty (Some ''constructor'') = None
   \<and> credentials (story_options form_environment Map.empty
        (plain_row ''s9'' None (Some ''constructor'')))
       = Some \<lparr>username = None, password = None\<rparr>
   \<and> executed (executeTestRun never_cancelled form_environment Map.empty
        [plain_row ''s9'' None (Some ''constructor'')] new_run) = [0]
   \<and> last_results (executeTestRun never_cancelled form_environment Map.empty
        [plain_row ''s9'' None (Some ''constructor'')] new_run) = [(''s9'', ''failed'')]
   \<and> stories_skipped (run (executeTestRun never_cancelled form_environment Map.empty
        [plain_row ''s9'' None (Some ''constructor'')] new_run)) = 0
   \<and> stories_failed (run (executeTestRun never_cancelled form_environment Map.empty
        [plain_row ''s9'' None (Some ''constructor'')] new_run)) = 1"
  by (simp add: orchestration_defs eval_defs never_cancelled_def strict_browser_def form_login_def)

section \<open>Properties of the credential encryption\<close>

lemma split_no_sep: "sep \<notin> set s \<Longrightarrow> split_on sep s = [s]"
  by (induction s) auto

lemma split_append: "sep \<notin> set s \<Longrightarrow> split_on sep (s @ sep # t) = s # split_on sep t"
  by (induction s) auto

lemma split_join4:
  assumes "sep \<notin> set a" "sep \<notin> set b" "sep \<notin> set c" "sep \<notin> set d"
  shows "split_on sep (join_with [sep] [a, b, c, d]) = [a, b, c, d]"
  using assms by (simp add: split_append split_no_sep)

lemma decrypt_four_fields:
  "length (split_on CHR '':'' c) \<noteq> 4 \<Longrightarrow> decrypt L env_key c = Inl InvalidCiphertextFormat"
  by (auto simp: decrypt_def split: list.splits)

text \<open>
  C9. With the encryption key configured, decrypting what \<open>encrypt\<close> returns for a
  plaintext gives the plaintext back, for every salt and vector drawn, provided the
  libraries do their part there: base64 decoding inverts encoding and writes no colon,
  the cipher decrypts what it encrypted under the derived key, and UTF-8 decoding inverts
  encoding on the plaintext (it does on well-formed text). And \<open>decrypt\<close> fails with the
  format error on every input that does not split at colons into exactly four fields,
  whether or not the key is configured.
\<close>

theorem encrypt_decrypt_roundtrip:
  assumes "env_key = Some k" and "k \<noteq> []"
    and "\<forall>b. from_base64 L (to_base64 L b) = b"
    and "\<forall>b. CHR '':'' \<notin> set (to_base64 L b)"
    and "gcm_encrypt L (scrypt L k salt 32) iv (utf8_encode L p) = (ct, tag)"
    and "gcm_decrypt L (scrypt L k salt 32) iv tag ct = Inr (utf8_encode L p)"
    and "utf8_decode L (utf8_encode L p) = p"
  shows "(\<exists>c. encrypt L env_key salt iv p = Inr c \<and> decrypt L env_key c = Inr p)
       \<and> (\<forall>c any_key. length (split_on CHR '':'' c) \<noteq> 4 \<longrightarrow>
             decrypt L any_key c = Inl InvalidCiphertextFormat)"
proof -
  define c where
    "c = join_with '':'' [to_base64 L salt, to_base64 L iv, to_base64 L tag, to_base64 L ct]"
  have dk: "deriveKey L env_key s = Inr (scrypt L k s 32)" for s
    using assms(1,2) by (simp add: deriveKey_def getEncryptionKey_def)
  have enc: "encrypt L env_key salt iv p = Inr c"
    by (simp add: encrypt_def dk c_def assms(5))
  from assms(3,4) have b64: "from_base64 L (to_base64 L b) = b"
    and nc: "CHR '':'' \<notin> set (to_base64 L b)" for b
    by simp_all
  have sp: "split_on CHR '':'' c
              = [to_base64 L salt, to_base64 L iv, to_base64 L tag, to_base64 L ct]"
    unfolding c_def by (rule split_join4) (rule nc)+
  have dec: "decrypt L env_key c = Inr p"
    by (simp add: decrypt_def sp dk b64 assms(6,7))
  from enc dec decrypt_four_fields show ?thesis by blast
qed

theorem encrypt_decrypt_roundtrip_witness:
  "encrypt toy_crypto (Some ''secret'') [True, False] [False, False, True]
       [True, True, False, True]
     = Inr ''10:001:10000000000000000000000000000000001:0010''
   \<and> decrypt toy_crypto (Some ''secret'') ''10:001:10000000000000000000000000000000001:0010''
     = Inr [True, True, False, True]
   \<and> decrypt toy_crypto (Some ''secret'') ''10:001:10000000000000000000000000000000001''
     = Inl InvalidCiphertextFormat
   \<and> decrypt toy_crypto None ''no colon at all'' = Inl InvalidCiphertextFormat"
proof -
  have b: "\<forall>b. from_base64 toy_crypto (to_base64 toy_crypto b) = b"
    by (auto simp: toy_crypto_def o_def intro: map_idI)
  have n: "\<forall>b. CHR '':'' \<notin> set (to_base64 toy_crypto b)"
    by (auto simp: toy_crypto_def)
  have e: "gcm_encrypt toy_crypto (scrypt toy_crypto ''secret'' [True, False] 32)
             [False, False, True] (utf8_encode toy_crypto [True, True, False, True])
           = ([False, False, True, False],
              scrypt toy_crypto ''secret'' [True, False] 32 @ [False, False, True])"
    by (simp add: toy_crypto_def)
  have d: "gcm_decrypt toy_crypto (scrypt toy_crypto ''secret'' [True, False] 32)
             [False, False, True]
             (scrypt toy_crypto ''secret'' [True, False] 32 @ [False, False, True])
             [False, False, True, False]
           = Inr (utf8_encode toy_crypto [True, True, False, True])"
    by (simp add: toy_crypto_def)
  have u: "utf8_decode toy_crypto (utf8_encode toy_crypto [True, True, False, True])
             = [True, True, False, True]"
    by (simp add: toy_crypto_def)
  have k: "''secret'' \<noteq> []" by simp
  note rt = encrypt_decrypt_roundtrip [OF refl k b n e d u]
  have enc: "encrypt toy_crypto (Some ''secret'') [True, False] [False, False, True]
       [True, True, False, True]
     = Inr ''10:001:10000000000000000000000000000000001:0010''"
    by (simp add: encrypt_def deriveKey_def getEncryptionKey_def toy_crypto_def
        numeral_eq_Suc)
  from rt enc
  have dec: "decrypt toy_crypto (Some ''secret'')
       ''10:001:10000000000000000000000000000000001:0010'' = Inr [True, True, False, True]"
    by auto
  from rt have bad: "decrypt toy_crypto any_key c = Inl InvalidCiphertextFormat"
    if "length (split_on CHR '':'' c) \<noteq> 4" for c any_key
    using that by simp
  have f1: "decrypt toy_crypto (Some ''secret'') ''10:001:10000000000000000000000000000000001''
     = Inl InvalidCiphertextFormat"
    by (rule bad) simp
  have f2: "decrypt toy_crypto None ''no colon at all'' = Inl InvalidCiphertextFormat"
    by (rule bad) simp
  from enc dec f1 f2 show ?thesis by simp
qed

end

